theory Spec2Isabelle
  imports Complex_Main "HOL-Library.Word"
begin

unbundle bit_operations_syntax

section \<open>The matcher library\<close>

text \<open>
  The header of namespace \<open>m\<close> defines predicates over the entities of the intermediate
  representation, the combinators that compose them, and two searches over a list of
  instructions. Entities are handed around as pointers; the model takes the pointee
  type as a type variable and never looks inside it, so two entities are equal exactly
  when the pointers are.
\<close>

subsection \<open>Errors\<close>

text \<open>
  \<open>std::vector::at\<close> throws \<open>std::out_of_range\<close>; an accessor of an instruction
  called on an instruction without that operand fails an assertion. Both are values
  of the model, and so are the two places where the C++ standard leaves the behaviour
  undefined: the overflow of an \<open>int\<close> and the use of an invalidated iterator.
\<close>

datatype error = Out_of_range | Assertion_failure string | Signed_overflow | Invalidated_iterator

subsection \<open>\<open>match_t\<close> and the combinators\<close>

text \<open>
  \<open>match_t<T, P>\<close> wraps a callable \<open>(const T*) const -> bool\<close> in its only field
  \<open>m_fn\<close>; \<open>matches\<close> applies it and \<open>matcher\<close> builds the wrapper.
\<close>

datatype 't match_t = Match_t (m_fn: "'t \<Rightarrow> bool")

definition matches :: "'t match_t \<Rightarrow> 't \<Rightarrow> bool" where
  "matches p t = m_fn p t"

definition matcher :: "('t \<Rightarrow> bool) \<Rightarrow> 't match_t" where
  "matcher fn = Match_t fn"

text \<open>\<open>operator!\<close>: \<open>return !p.matches(t);\<close>\<close>

definition operator_not :: "'t match_t \<Rightarrow> 't match_t" where
  "operator_not p = matcher (\<lambda>t. \<not> matches p t)"

text \<open>\<open>operator||\<close>: \<open>return p.matches(t) || q.matches(t);\<close>\<close>

definition operator_or :: "'t match_t \<Rightarrow> 't match_t \<Rightarrow> 't match_t" where
  "operator_or p q = matcher (\<lambda>t. matches p t \<or> matches q t)"

text \<open>\<open>operator&&\<close>: \<open>return p.matches(t) && q.matches(t);\<close>\<close>

definition operator_and :: "'t match_t \<Rightarrow> 't match_t \<Rightarrow> 't match_t" where
  "operator_and p q = matcher (\<lambda>t. matches p t \<and> matches q t)"

text \<open>
  \<open>operator^\<close>: \<open>return p.matches(t) ^ q.matches(t);\<close>. In C++ both operands are
  promoted to \<open>int\<close> (0 or 1), the bitwise exclusive or is an \<open>int\<close>, and
  \<open>match_t::matches\<close> converts it back to \<open>bool\<close> (non-zero is true).
\<close>

definition operator_xor :: "'t match_t \<Rightarrow> 't match_t \<Rightarrow> 't match_t" where
  "operator_xor p q =
     matcher (\<lambda>t. ((of_bool (matches p t) :: int) XOR of_bool (matches q t)) \<noteq> 0)"

text \<open>\<open>any<T>()\<close> always matches.\<close>

definition any :: "'t match_t" where
  "any = matcher (\<lambda>_. True)"

subsection \<open>Matching a pattern against a window: \<open>insns_matcher\<close>\<close>

text \<open>
  The position \<open>at\<close> of \<open>matches_at\<close> is an \<open>int\<close> (32 bits), while the caller
  hands it the \<open>size_t\<close> index of its loop and \<open>std::vector::at\<close> takes a
  \<open>size_t\<close> (64 bits) again. The two conversions are written out: to \<open>int\<close> the
  index is reduced modulo \<open>2^32\<close> and read in two's complement, and back to
  \<open>size_t\<close> a negative \<open>int\<close> becomes a number of at least \<open>2^64 - 2^31\<close>.
\<close>

definition INT_MAX :: int where
  "INT_MAX = 2 ^ 31 - 1"

definition int_of_size_t :: "nat \<Rightarrow> int" where
  "int_of_size_t n = (let m = int (n mod 2 ^ 32) in if m \<le> INT_MAX then m else m - 2 ^ 32)"

definition size_t_of_int :: "int \<Rightarrow> nat" where
  "size_t_of_int k = nat (k mod 2 ^ 64)"

text \<open>
  The pattern \<open>P\<close> is a tuple of \<open>N\<close> predicates over instructions. The recursive
  template \<open>insns_matcher<T, N>\<close> walks the tuple from component \<open>N\<close> to its end;
  the model walks the list of the components that are left, so the base case (\<open>N\<close>
  equal to the tuple's size) is the empty list. Each step first reads
  \<open>insns.at(at)\<close>, which throws outside the vector, then asks the component, and
  only when it matches (\<open>&&\<close> short-circuits) computes \<open>at + 1\<close> and recurs. The
  sum \<open>at + 1\<close> is undefined in C++ when \<open>at\<close> is \<open>INT_MAX\<close>; the model makes it
  a failure of its own. The parameter \<open>at\<close> of the source is \<open>pos\<close> here.
\<close>

fun matches_at :: "int \<Rightarrow> 'i list \<Rightarrow> 'i match_t list \<Rightarrow> error + bool" where
  "matches_at pos insns [] = Inr True"
| "matches_at pos insns (insn_match # t) =
     (if size_t_of_int pos < length insns then
        (if matches insn_match (insns ! size_t_of_int pos) then
           (if pos = INT_MAX then Inl Signed_overflow else matches_at (pos + 1) insns t)
         else Inr False)
      else Inl Out_of_range)"

subsection \<open>\<open>find_matches\<close>\<close>

text \<open>
  \<open>find_matches\<close> returns nothing and changes the vector \<open>matches\<close>; when an
  exception leaves it, what it has appended so far stays in the vector. The model
  returns the exception, if any, and the vector.

  The inner loop of \<open>find_matches\<close> fills the vector it has just appended:
  \<open>for (size_t c = 0; c < N; ++c) matching_insns.push_back(insns.at(i + c));\<close>
\<close>

function copy_window ::
  "nat \<Rightarrow> nat \<Rightarrow> nat \<Rightarrow> 'i list \<Rightarrow> 'i list \<Rightarrow> error option \<times> 'i list" where
  "copy_window c N i insns matching_insns =
     (if c < N then
        (if i + c < length insns
         then copy_window (c + 1) N i insns (matching_insns @ [insns ! (i + c)])
         else (Some Out_of_range, matching_insns))
      else (None, matching_insns))"
  by pat_completeness auto
termination
  by (relation "measure (\<lambda>(c, N, i, insns, matching_insns). N - c)") auto

declare copy_window.simps [simp del]

text \<open>
  The outer loop, \<open>for (size_t i = 0; i <= insns.size() - N; ++i)\<close>, is entered only
  when \<open>insns.size() >= N\<close>, so the unsigned subtraction does not wrap. The call
  \<open>matches_at(i, insns, p)\<close> converts \<open>i\<close> to \<open>int\<close>. A matching window is
  appended to \<open>matches\<close> as a new vector (\<open>emplace_back\<close>) that the inner loop fills.
\<close>

function find_matches_loop ::
  "nat \<Rightarrow> 'i list \<Rightarrow> 'i match_t list \<Rightarrow> 'i list list \<Rightarrow> error option \<times> 'i list list" where
  "find_matches_loop i insns p matches_out =
     (if i \<le> length insns - length p then
        (case matches_at (int_of_size_t i) insns p of
           Inl e \<Rightarrow> (Some e, matches_out)
         | Inr True \<Rightarrow>
             (case copy_window 0 (length p) i insns [] of
                (Some e, matching_insns) \<Rightarrow> (Some e, matches_out @ [matching_insns])
              | (None, matching_insns) \<Rightarrow>
                  find_matches_loop (i + 1) insns p (matches_out @ [matching_insns]))
         | Inr False \<Rightarrow> find_matches_loop (i + 1) insns p matches_out)
      else (None, matches_out))"
  by pat_completeness auto
termination
  by (relation "measure (\<lambda>(i, insns, p, matches_out). Suc (length insns - length p) - i)")
    auto

declare find_matches_loop.simps [simp del]

definition find_matches ::
  "'i list \<Rightarrow> 'i match_t list \<Rightarrow> 'i list list \<Rightarrow> error option \<times> 'i list list" where
  "find_matches insns p matches_out =
     (if length insns \<ge> length p then find_matches_loop 0 insns p matches_out
      else (None, matches_out))"

subsection \<open>\<open>find_insn_match\<close>\<close>

text \<open>
  \<open>for (auto insn : insns) if (p.matches(insn)) matches.emplace_back(insn);\<close>
  read as a function of the contents of the two vectors, for an output vector that is
  another object than the instruction list (the call on vectors in memory, where the
  two may be the same object, follows below).
\<close>

fun find_insn_match :: "'i list \<Rightarrow> 'i match_t \<Rightarrow> 'i list \<Rightarrow> 'i list" where
  "find_insn_match [] p matches_out = matches_out"
| "find_insn_match (insn # insns) p matches_out =
     (if matches p insn then find_insn_match insns p (matches_out @ [insn])
      else find_insn_match insns p matches_out)"

subsection \<open>The two searches on vectors in memory\<close>

text \<open>
  Both searches take their vectors by reference. A memory holds the vectors of
  instructions and the vectors of windows, each kind under its addresses; an
  instruction list is an object of its own here, never an element of a vector of
  windows.
\<close>

type_synonym addr = nat

record 'i memory =
  insn_vectors :: "addr \<Rightarrow> 'i list"
  match_vectors :: "addr \<Rightarrow> 'i list list"


text \<open>
  \<open>find_insn_match\<close>: list and output are both vectors of instructions and may be
  the same object. The range-based \<open>for\<close> takes \<open>begin()\<close> and \<open>end()\<close> of the list
  once, so it runs over the \<open>n\<close> positions the list has at the start and reads
  position \<open>k\<close> from the list as it is then. \<open>emplace_back\<close> on the list itself
  invalidates the iterators of the loop (the one past the end in any case); going on
  with them is undefined in C++, and the model stops there with a failure, the
  appended element in place.
\<close>

function find_insn_match_from ::
  "nat \<Rightarrow> nat \<Rightarrow> addr \<Rightarrow> 'i match_t \<Rightarrow> addr \<Rightarrow> 'i memory \<Rightarrow> error option \<times> 'i memory" where
  "find_insn_match_from k n insns p matches_out mem =
     (if k < n then
        (let insn = insn_vectors mem insns ! k in
         if matches p insn then
           (let mem' = mem\<lparr>insn_vectors :=
                          (insn_vectors mem)(matches_out := insn_vectors mem matches_out @ [insn])\<rparr>
            in if insns = matches_out then (Some Invalidated_iterator, mem')
               else find_insn_match_from (k + 1) n insns p matches_out mem')
         else find_insn_match_from (k + 1) n insns p matches_out mem)
      else (None, mem))"
  by pat_completeness auto
termination
  by (relation "measure (\<lambda>(k, n, insns, p, matches_out, mem). n - k)") auto

declare find_insn_match_from.simps [simp del]

definition find_insn_match_call ::
  "addr \<Rightarrow> 'i match_t \<Rightarrow> addr \<Rightarrow> 'i memory \<Rightarrow> error option \<times> 'i memory" where
  "find_insn_match_call insns p matches_out mem =
     find_insn_match_from 0 (length (insn_vectors mem insns)) insns p matches_out mem"

text \<open>A predicate that matches nothing, built from the combinators.\<close>

definition never :: "'t match_t" where
  "never = operator_not any"


text \<open>
  A memory to run the searches in: the instruction list \<open>[8, 3]\<close> at address 0, an
  output vector holding \<open>[100]\<close> at address 1, the instruction list \<open>[3, 8]\<close> at
  address 3, and a vector of windows holding \<open>[[1, 2]]\<close> at address 0.
\<close>

definition example_memory :: "nat memory" where
  "example_memory =
     \<lparr>insn_vectors = (\<lambda>a. if a = 0 then [8, 3] else if a = 1 then [100]
                            else if a = 3 then [3, 8] else []),
      match_vectors = (\<lambda>a. if a = 0 then [[1, 2]] else [])\<rparr>"

subsection \<open>The contract of the sequence matcher, in the specification's words\<close>

text \<open>
  A start \<open>s\<close> qualifies when predicate \<open>k\<close> matches instruction \<open>s + k\<close> for every
  \<open>k\<close> below the pattern's length; the windows are those of the qualifying starts
  \<open>0, \<dots>, L - N\<close> in ascending order, each the \<open>N\<close> instructions from \<open>s\<close> on.
\<close>

definition window_matches :: "'i list \<Rightarrow> 'i match_t list \<Rightarrow> nat \<Rightarrow> bool" where
  "window_matches insns p s =
     list_all (\<lambda>k. matches (p ! k) (insns ! (s + k))) [0..<length p]"

definition window :: "'i list \<Rightarrow> nat \<Rightarrow> nat \<Rightarrow> 'i list" where
  "window insns N s = take N (drop s insns)"

definition matching_windows :: "'i list \<Rightarrow> 'i match_t list \<Rightarrow> 'i list list" where
  "matching_windows insns p =
     (if length insns < length p then []
      else map (window insns (length p))
             (filter (window_matches insns p) [0..<Suc (length insns - length p)]))"

subsection \<open>Instructions and the projections onto their operands\<close>

text \<open>
  Modelled from the spec: the class \<open>IRInstruction\<close> is declared in a header that is
  not under src/. The specification describes an instruction as an opcode, an operand
  count and, for each of the four kinds of reference (string, type, field, method), a
  predicate \<open>has_\<dots>\<close> with an accessor \<open>get_\<dots>\<close>. The model keeps one optional
  operand per kind; an accessor called on an instruction without that operand is taken
  to fail an assertion, the worst a caller can meet.
\<close>

record ('s, 't, 'f, 'm) IRInstruction =
  opcode :: nat
  srcs_size :: nat
  string_operand :: "'s option"
  type_operand :: "'t option"
  field_operand :: "'f option"
  method_operand :: "'m option"

definition has_string :: "('s, 't, 'f, 'm) IRInstruction \<Rightarrow> bool" where
  "has_string insn = (string_operand insn \<noteq> None)"

definition has_type :: "('s, 't, 'f, 'm) IRInstruction \<Rightarrow> bool" where
  "has_type insn = (type_operand insn \<noteq> None)"

definition has_field :: "('s, 't, 'f, 'm) IRInstruction \<Rightarrow> bool" where
  "has_field insn = (field_operand insn \<noteq> None)"

definition has_method :: "('s, 't, 'f, 'm) IRInstruction \<Rightarrow> bool" where
  "has_method insn = (method_operand insn \<noteq> None)"

definition get_string :: "('s, 't, 'f, 'm) IRInstruction \<Rightarrow> error + 's" where
  "get_string insn =
     (case string_operand insn of
        None \<Rightarrow> Inl (Assertion_failure ''has_string()'') | Some s \<Rightarrow> Inr s)"

definition get_type :: "('s, 't, 'f, 'm) IRInstruction \<Rightarrow> error + 't" where
  "get_type insn =
     (case type_operand insn of
        None \<Rightarrow> Inl (Assertion_failure ''has_type()'') | Some t \<Rightarrow> Inr t)"

definition get_field :: "('s, 't, 'f, 'm) IRInstruction \<Rightarrow> error + 'f" where
  "get_field insn =
     (case field_operand insn of
        None \<Rightarrow> Inl (Assertion_failure ''has_field()'') | Some f \<Rightarrow> Inr f)"

definition get_method :: "('s, 't, 'f, 'm) IRInstruction \<Rightarrow> error + 'm" where
  "get_method insn =
     (case method_operand insn of
        None \<Rightarrow> Inl (Assertion_failure ''has_method()'') | Some m \<Rightarrow> Inr m)"

text \<open>
  The four projections. Each is the function that the source wraps with
  \<open>matcher<IRInstruction>\<close>, for instance
  \<open>return insn->has_method() && p.matches(insn->get_method());\<close>
  with the failure of the accessor kept in the result type; \<open>&&\<close> evaluates its
  right operand only when the left one is true.
\<close>

definition opcode_method ::
  "'m match_t \<Rightarrow> ('s, 't, 'f, 'm) IRInstruction \<Rightarrow> error + bool" where
  "opcode_method p insn =
     (if has_method insn
      then (case get_method insn of Inl e \<Rightarrow> Inl e | Inr m \<Rightarrow> Inr (matches p m))
      else Inr False)"

definition opcode_field ::
  "'f match_t \<Rightarrow> ('s, 't, 'f, 'm) IRInstruction \<Rightarrow> error + bool" where
  "opcode_field p insn =
     (if has_field insn
      then (case get_field insn of Inl e \<Rightarrow> Inl e | Inr f \<Rightarrow> Inr (matches p f))
      else Inr False)"

definition opcode_type ::
  "'t match_t \<Rightarrow> ('s, 't, 'f, 'm) IRInstruction \<Rightarrow> error + bool" where
  "opcode_type p insn =
     (if has_type insn
      then (case get_type insn of Inl e \<Rightarrow> Inl e | Inr t \<Rightarrow> Inr (matches p t))
      else Inr False)"

definition opcode_string ::
  "'s match_t \<Rightarrow> ('s, 't, 'f, 'm) IRInstruction \<Rightarrow> error + bool" where
  "opcode_string p insn =
     (if has_string insn
      then (case get_string insn of Inl e \<Rightarrow> Inl e | Inr s \<Rightarrow> Inr (matches p s))
      else Inr False)"

subsection \<open>\<open>as_class\<close> and \<open>can_be_default_constructor\<close>\<close>

text \<open>
  \<open>as_class\<close>: \<open>auto cls = type_class(t); return cls && p.matches(cls);\<close>. The
  lookup \<open>type_class\<close> belongs to the program model; it is a parameter here, and a
  null pointer is \<open>None\<close>.
\<close>

definition as_class :: "('t \<Rightarrow> 'c option) \<Rightarrow> 'c match_t \<Rightarrow> 't match_t" where
  "as_class type_class_lookup p =
     matcher (\<lambda>t. case type_class_lookup t of None \<Rightarrow> False | Some cls \<Rightarrow> matches p cls)"

text \<open>
  \<open>can_be_default_constructor\<close>:
  \<open>const DexMethod* def = meth->as_def(); return def && detail::is_default_constructor(def);\<close>.
  Both \<open>as_def\<close> (a method of the reference) and \<open>detail::is_default_constructor\<close>
  (declared in the header, defined elsewhere) are parameters.
\<close>

definition can_be_default_constructor ::
  "('r \<Rightarrow> 'd option) \<Rightarrow> ('d \<Rightarrow> bool) \<Rightarrow> 'r match_t" where
  "can_be_default_constructor as_def is_default_constructor =
     matcher (\<lambda>meth. case as_def meth of
                       None \<Rightarrow> False
                     | Some def \<Rightarrow> is_default_constructor def)"

subsection \<open>The class hierarchy and \<open>is_assignable_to\<close>\<close>

text \<open>
  Modelled from the spec: the class hierarchy is external to the matcher. The
  specification gives it as a mapping from a type to its definition, which names the
  superclass (none at a root) and the directly implemented or extended interfaces; a
  type without a definition is unresolvable. The mapping is an association list, so
  that it is finite, and \<open>type_class_of\<close> is the lookup the source calls
  \<open>type_class\<close>.
\<close>

record 't DexClass =
  super_class :: "'t option"
  interfaces :: "'t list"

type_synonym 't class_hierarchy = "('t \<times> 't DexClass) list"

definition type_class_of :: "'t class_hierarchy \<Rightarrow> 't \<Rightarrow> 't DexClass option" where
  "type_class_of h t = map_of h t"

definition direct_supertypes :: "'t DexClass \<Rightarrow> 't list" where
  "direct_supertypes cls =
     (case super_class cls of None \<Rightarrow> [] | Some s \<Rightarrow> [s]) @ interfaces cls"

text \<open>
  Modelled from the spec: \<open>detail::is_assignable_to\<close> is only declared in the
  header; its body is not under src/. The specification describes a walk that starts
  at the candidate; at each type it compares with the target and succeeds on a match,
  then goes on to the superclass and into each declared interface; it keeps the set of
  the classes it has already expanded; an unresolvable type is a dead end; the walk
  fails when nothing is left to visit. The walk is written with the list of the types
  that are still to be visited, the superclass in front of the interfaces.
\<close>

function walk :: "'t class_hierarchy \<Rightarrow> 't \<Rightarrow> 't set \<Rightarrow> 't list \<Rightarrow> bool" where
  "walk h parent visited [] = False"
| "walk h parent visited (t # todo) =
     (if t = parent then True
      else (case type_class_of h t of
              None \<Rightarrow> walk h parent visited todo
            | Some cls \<Rightarrow>
                if t \<in> visited then walk h parent visited todo
                else walk h parent (insert t visited) (direct_supertypes cls @ todo)))"
  by pat_completeness auto
termination
proof (relation "measures [\<lambda>(h, parent, visited, todo). card (fst ` set h - visited),
                           \<lambda>(h, parent, visited, todo). length todo]", goal_cases)
  case 1
  then show ?case by simp
next
  case (2 h parent visited t todo)
  then show ?case by simp
next
  case (3 h parent visited t todo cls)
  then show ?case by simp
next
  case (4 h parent visited t todo cls)
  then have "t \<in> fst ` set h"
    by (metis type_class_of_def map_of_eq_None_iff option.distinct(1))
  with 4 have "fst ` set h - insert t visited \<subset> fst ` set h - visited"
    by auto
  then have "card (fst ` set h - insert t visited) < card (fst ` set h - visited)"
    by (intro psubset_card_mono) auto
  then show ?case by simp
qed

definition detail_is_assignable_to :: "'t class_hierarchy \<Rightarrow> 't \<Rightarrow> 't \<Rightarrow> bool" where
  "detail_is_assignable_to h child parent = walk h parent {} [child]"

text \<open>
  The predicate of the header:
  \<open>matcher<DexType>([parent](const DexType* child) { return detail::is_assignable_to(child, parent); })\<close>
\<close>

definition is_assignable_to :: "'t class_hierarchy \<Rightarrow> 't \<Rightarrow> 't match_t" where
  "is_assignable_to h parent = matcher (\<lambda>child. detail_is_assignable_to h child parent)"

text \<open>
  The relation the specification speaks of: \<open>t\<close> derives directly from \<open>u\<close> when
  \<open>t\<close> has a definition whose superclass is \<open>u\<close> or which lists \<open>u\<close> among its
  interfaces. Deriving transitively is the reflexive and transitive closure.
\<close>

definition derives :: "'t class_hierarchy \<Rightarrow> ('t \<times> 't) set" where
  "derives h = {(t, u). \<exists>cls. type_class_of h t = Some cls \<and>
                  (super_class cls = Some u \<or> u \<in> set (interfaces cls))}"

text \<open>
  What the walk maintains: the target has not been expanded, and every direct
  supertype of an expanded class is expanded, still to be visited, or a dead end.
\<close>

definition closed_but :: "'t class_hierarchy \<Rightarrow> 't \<Rightarrow> 't set \<Rightarrow> 't list \<Rightarrow> bool" where
  "closed_but h parent visited todo \<longleftrightarrow>
     parent \<notin> visited \<and>
     (\<forall>v u. v \<in> visited \<longrightarrow> (v, u) \<in> derives h \<longrightarrow>
        u \<in> visited \<or> u \<in> set todo \<or> (u \<noteq> parent \<and> type_class_of h u = None))"

text \<open>
  A hierarchy to run the walk on: \<open>LD;\<close> implements \<open>LB;\<close> and \<open>LC;\<close>, which both
  extend \<open>LA;\<close> (a diamond); \<open>LObject;\<close> is the root; \<open>LE;\<close> has a superclass
  without a definition and names itself among its interfaces.
\<close>

definition diamond :: "string class_hierarchy" where
  "diamond =
     [(''LD;'', \<lparr>super_class = Some ''LObject;'', interfaces = [''LB;'', ''LC;'']\<rparr>),
      (''LB;'', \<lparr>super_class = Some ''LObject;'', interfaces = [''LA;'']\<rparr>),
      (''LC;'', \<lparr>super_class = Some ''LObject;'', interfaces = [''LA;'']\<rparr>),
      (''LA;'', \<lparr>super_class = Some ''LObject;'', interfaces = []\<rparr>),
      (''LObject;'', \<lparr>super_class = None, interfaces = []\<rparr>),
      (''LE;'', \<lparr>super_class = Some ''LMissing;'', interfaces = [''LE;'']\<rparr>)]"

section \<open>Method profiles: reading the statistics file\<close>

text \<open>
  \<open>MethodProfiles::parse_stats_file\<close> reads a file of comma-separated values line by
  line; the first line is the header, every other line a row of statistics for one
  method.
\<close>

subsection \<open>The statistics and the state\<close>

text \<open>
  Modelled from the spec: the struct \<open>Stats\<close> is declared in MethodProfiles.h, which
  is not under src/. The specification gives its fields: three floating-point numbers
  and a level from 0 to 255. The type of C doubles is left open (\<open>'d\<close>); the level is
  a \<open>uint8_t\<close>.
\<close>

record 'd Stats =
  appear_percent :: 'd
  call_count :: 'd
  order_percent :: 'd
  min_api_level :: "8 word"

text \<open>
  What a call can change: the member \<open>m_method_stats\<close> (an \<open>unordered_map\<close> from
  method references to statistics), the global \<open>errno\<close>, and what has been written
  to \<open>std::cerr\<close>. Tracing (\<open>TRACE\<close>) and the timer are left out.
\<close>

record ('r, 'd) profiles_state =
  m_method_stats :: "'r \<rightharpoonup> 'd Stats"
  errno :: int
  cerr :: string

text \<open>
  A call returns a value or is left through a failed assertion. Modelled from the
  spec: the macro \<open>always_assert_log\<close> is not under src/; by the specification a
  failed check aborts the ingestion and reports the failure, so a failed assertion
  ends every enclosing call. \<open>Raised\<close> carries what the code hands to the macro: the
  format string with its arguments filled in. What the macro puts around that text
  when it reports the failure is not in the source and not in the model. What the
  call had already changed stays changed.
\<close>

datatype 'a outcome = Returned 'a | Raised string

subsection \<open>What the code takes from outside\<close>

text \<open>
  A conversion of the C library (\<open>strtod\<close>, \<open>strtoul\<close>) gives the value, the number
  of characters it consumed (\<open>rest\<close> is the text behind them) and, when it sets
  \<open>errno\<close>, the new value. \<open>unsigned long\<close> has 64 bits.
\<close>

record 'v conversion =
  result :: 'v
  consumed :: nat
  sets_errno :: "int option"

text \<open>
  The environment of a call: the file system (\<open>fopen\<close> stands for
  \<open>fopen(csv_filename.c_str(), "r")\<close>: it fails with an error number, or gives a
  stream, here its contents, which are bytes of any value), \<open>strerror\<close>, the two
  conversions (they take the characters of a C string), the lookup
  \<open>DexMethod::get_method\<close> of a method reference by its name, and the statistics
  that the declaration \<open>Stats stats;\<close> starts from.
\<close>

record ('r, 'd) environment =
  fopen :: "string \<Rightarrow> int + string"
  strerror :: "int \<Rightarrow> string"
  strtod :: "string \<Rightarrow> 'd conversion"
  strtoul :: "string \<Rightarrow> 64 word conversion"
  DexMethod_get_method :: "string \<Rightarrow> 'r option"
  initial_stats :: "'d Stats"

subsection \<open>Columns\<close>

text \<open>
  Modelled from the spec: the enumeration of the columns is declared in
  MethodProfiles.h. The specification fixes the order of the eight columns:
  index, name, appear100, appear#, avg_call, avg_order, avg_rank100, min_api_level.
\<close>

definition INDEX :: nat where "INDEX = 0"
definition NAME :: nat where "NAME = 1"
definition APPEAR100 :: nat where "APPEAR100 = 2"
definition APPEAR_NUMBER :: nat where "APPEAR_NUMBER = 3"
definition AVG_CALL :: nat where "AVG_CALL = 4"
definition AVG_ORDER :: nat where "AVG_ORDER = 5"
definition AVG_RANK100 :: nat where "AVG_RANK100 = 6"
definition MIN_API_LEVEL :: nat where "MIN_API_LEVEL = 7"

subsection \<open>\<open>parse_cells\<close>\<close>

text \<open>
  Modelled from the spec: \<open>parse_cells\<close> is a member template of MethodProfiles.h,
  which is not under src/. By the specification a line is a sequence of
  comma-separated columns: the cells are the pieces of the line between the commas,
  the line break staying in the last one (hence the numeric cells that may end in a
  single line break). The cells are handed to \<open>parse_cell\<close> in order, with their
  index from 0; the first cell that \<open>parse_cell\<close> refuses makes the result false,
  and a failed assertion leaves the loop.
\<close>

fun split_cells :: "string \<Rightarrow> string list" where
  "split_cells [] = [[]]"
| "split_cells (c # cs) =
     (if c = CHR '','' then [] # split_cells cs
      else (case split_cells cs of [] \<Rightarrow> [[c]] | tok # toks \<Rightarrow> (c # tok) # toks))"

fun parse_cells_from ::
  "(string \<Rightarrow> nat \<Rightarrow> 'st \<Rightarrow> bool outcome \<times> 'st) \<Rightarrow> string list \<Rightarrow> nat \<Rightarrow> 'st
   \<Rightarrow> bool outcome \<times> 'st" where
  "parse_cells_from parse_cell [] i st = (Returned True, st)"
| "parse_cells_from parse_cell (tok # toks) i st =
     (case parse_cell tok i st of
        (Returned True, st') \<Rightarrow> parse_cells_from parse_cell toks (i + 1) st'
      | (Returned False, st') \<Rightarrow> (Returned False, st')
      | (Raised msg, st') \<Rightarrow> (Raised msg, st'))"

definition parse_cells ::
  "(string \<Rightarrow> nat \<Rightarrow> 'st \<Rightarrow> bool outcome \<times> 'st) \<Rightarrow> string \<Rightarrow> 'st \<Rightarrow> bool outcome \<times> 'st" where
  "parse_cells parse_cell line st = parse_cells_from parse_cell (split_cells line) 0 st"

subsection \<open>\<open>parse_header\<close>\<close>

text \<open>Printing the column number to \<open>std::cerr\<close>.\<close>

fun show_nat :: "nat \<Rightarrow> string" where
  "show_nat n =
     (if n < 10 then [char_of (48 + n)] else show_nat (n div 10) @ [char_of (48 + n mod 10)])"

declare show_nat.simps [simp del]

text \<open>
  \<open>check_cell\<close>: \<open>strncmp(tok, expected, MAX_CELL_LENGTH) != 0\<close> compares at most
  the first 1000 characters of the two strings.
\<close>

definition MAX_CELL_LENGTH :: nat where "MAX_CELL_LENGTH = 1000"

definition check_cell ::
  "string \<Rightarrow> string \<Rightarrow> nat \<Rightarrow> ('r, 'd) profiles_state \<Rightarrow> bool \<times> ('r, 'd) profiles_state" where
  "check_cell expected tok i st =
     (if take MAX_CELL_LENGTH tok \<noteq> take MAX_CELL_LENGTH expected
      then (False, st\<lparr>cerr := cerr st @ ''Unexpected Header (column '' @ show_nat i @ ''): ''
                              @ tok @ '' != '' @ expected @ ''\<newline>''\<rparr>)
      else (True, st))"

text \<open>The text a header cell is compared with; the \<open>default\<close> case expects a line break.\<close>

definition expected_header :: "nat \<Rightarrow> string" where
  "expected_header i =
     (if i = INDEX then ''index''
      else if i = NAME then ''name''
      else if i = APPEAR100 then ''appear100''
      else if i = APPEAR_NUMBER then ''appear#''
      else if i = AVG_CALL then ''avg_call''
      else if i = AVG_ORDER then ''avg_order''
      else if i = AVG_RANK100 then ''avg_rank100''
      else if i = MIN_API_LEVEL then ''min_api_level''
      else ''\<newline>'')"

definition header_cell ::
  "string \<Rightarrow> nat \<Rightarrow> ('r, 'd) profiles_state \<Rightarrow> bool outcome \<times> ('r, 'd) profiles_state" where
  "header_cell tok i st =
     (case check_cell (expected_header i) tok i st of (ok, st') \<Rightarrow> (Returned ok, st'))"

definition parse_header ::
  "string \<Rightarrow> ('r, 'd) profiles_state \<Rightarrow> bool outcome \<times> ('r, 'd) profiles_state" where
  "parse_header line st = parse_cells header_cell line st"

subsection \<open>\<open>parse_line\<close>\<close>

text \<open>
  The two local conversions of \<open>parse_line\<close>. \<open>rest\<close> points behind the characters
  the C library consumed; \<open>rest != tok\<close> compares pointers, and the two differ
  exactly when the texts do. The first assertion wants a conversion to have taken
  place, the second that nothing but one line break is left.
\<close>

definition set_errno :: "int option \<Rightarrow> ('r, 'd) profiles_state \<Rightarrow> ('r, 'd) profiles_state" where
  "set_errno e st = (case e of None \<Rightarrow> st | Some v \<Rightarrow> st\<lparr>errno := v\<rparr>)"

definition parse_byte ::
  "('r, 'd) environment \<Rightarrow> string \<Rightarrow> ('r, 'd) profiles_state
   \<Rightarrow> 8 word outcome \<times> ('r, 'd) profiles_state" where
  "parse_byte env tok st =
     (let c = strtoul env tok;
          st' = set_errno (sets_errno c) st;
          rest = drop (consumed c) tok;
          result = (ucast (result c) :: 8 word);
          len = length rest
      in if \<not> rest \<noteq> tok then (Raised (''can't parse '' @ tok @ '' into a uint8_t''), st')
         else if \<not> (len = 0 \<or> (len = 1 \<and> rest ! 0 = CHR ''\<newline>''))
         then (Raised (''can't parse '' @ tok @ '' into a uint8_t''), st')
         else (Returned result, st'))"

definition parse_double ::
  "('r, 'd) environment \<Rightarrow> string \<Rightarrow> ('r, 'd) profiles_state
   \<Rightarrow> 'd outcome \<times> ('r, 'd) profiles_state" where
  "parse_double env tok st =
     (let c = strtod env tok;
          st' = set_errno (sets_errno c) st;
          rest = drop (consumed c) tok;
          result = result c;
          len = length rest
      in if \<not> rest \<noteq> tok then (Raised (''can't parse '' @ tok @ '' into a double''), st')
         else if \<not> (len = 0 \<or> (len = 1 \<and> rest ! 0 = CHR ''\<newline>''))
         then (Raised (''can't parse '' @ tok @ '' into a double''), st')
         else (Returned result, st'))"

text \<open>
  The lambda \<open>parse_cell\<close> of \<open>parse_line\<close>. It captures the locals \<open>ref\<close> and
  \<open>stats\<close> by reference; the model passes them along with the state.
\<close>

type_synonym ('r, 'd) row_state = "('r, 'd) profiles_state \<times> 'r option \<times> 'd Stats"

definition parse_cell ::
  "('r, 'd) environment \<Rightarrow> string \<Rightarrow> nat \<Rightarrow> ('r, 'd) row_state
   \<Rightarrow> bool outcome \<times> ('r, 'd) row_state" where
  "parse_cell env tok i = (\<lambda>(st, ref, stats).
     if i = INDEX then (Returned True, st, ref, stats)
     else if i = NAME then (Returned True, st, DexMethod_get_method env tok, stats)
     else if i = APPEAR100 then
       (case parse_double env tok st of
          (Raised msg, st') \<Rightarrow> (Raised msg, st', ref, stats)
        | (Returned v, st') \<Rightarrow> (Returned True, st', ref, stats\<lparr>appear_percent := v\<rparr>))
     else if i = APPEAR_NUMBER then (Returned True, st, ref, stats)
     else if i = AVG_CALL then
       (case parse_double env tok st of
          (Raised msg, st') \<Rightarrow> (Raised msg, st', ref, stats)
        | (Returned v, st') \<Rightarrow> (Returned True, st', ref, stats\<lparr>call_count := v\<rparr>))
     else if i = AVG_ORDER then (Returned True, st, ref, stats)
     else if i = AVG_RANK100 then
       (case parse_double env tok st of
          (Raised msg, st') \<Rightarrow> (Raised msg, st', ref, stats)
        | (Returned v, st') \<Rightarrow> (Returned True, st', ref, stats\<lparr>order_percent := v\<rparr>))
     else if i = MIN_API_LEVEL then
       (case parse_byte env tok st of
          (Raised msg, st') \<Rightarrow> (Raised msg, st', ref, stats)
        | (Returned v, st') \<Rightarrow> (Returned True, st', ref, stats\<lparr>min_api_level := v\<rparr>))
     else (Returned False,
           st\<lparr>cerr := cerr st @ ''FAILED to parse line. Too many columns\<newline>''\<rparr>, ref, stats))"

text \<open>\<open>unordered_map::emplace\<close> leaves the map alone when the key is already there.\<close>

definition emplace :: "('k \<rightharpoonup> 'v) \<Rightarrow> 'k \<Rightarrow> 'v \<Rightarrow> ('k \<rightharpoonup> 'v)" where
  "emplace m k v = (case m k of None \<Rightarrow> m(k \<mapsto> v) | Some _ \<Rightarrow> m)"

definition parse_line ::
  "('r, 'd) environment \<Rightarrow> string \<Rightarrow> bool \<Rightarrow> ('r, 'd) profiles_state
   \<Rightarrow> bool outcome \<times> ('r, 'd) profiles_state" where
  "parse_line env line first st =
     (if first then parse_header line st
      else
        (case parse_cells (parse_cell env) line (st, None, initial_stats env) of
           (Raised msg, (st', ref, stats)) \<Rightarrow> (Raised msg, st')
         | (Returned False, (st', ref, stats)) \<Rightarrow> (Returned False, st')
         | (Returned True, (st', ref, stats)) \<Rightarrow>
             (case ref of
                None \<Rightarrow> (Returned True, st')
              | Some r \<Rightarrow>
                  (Returned True,
                   st'\<lparr>m_method_stats := emplace (m_method_stats st') r stats\<rparr>))))"

subsection \<open>\<open>parse_stats_file\<close>\<close>

text \<open>
  \<open>getline\<close> hands out the contents of the stream line by line, each line with its
  line break (the last line may lack one), and fails at the end of the stream. A
  read error in the middle of the stream is not part of the model, and neither
  a successful \<open>fopen\<close> nor the end of the stream touch \<open>errno\<close>.
\<close>

fun getlines :: "string \<Rightarrow> string list" where
  "getlines [] = []"
| "getlines (c # cs) =
     (if c = CHR ''\<newline>'' then [c] # getlines cs
      else (case getlines cs of [] \<Rightarrow> [[c]] | l # ls \<Rightarrow> (c # l) # ls))"

text \<open>
  The buffer that \<open>getline\<close> has filled is handed to \<open>parse_line\<close> as a
  \<open>char*\<close>: the callee, and \<open>strncmp\<close>, \<open>strtod\<close>, \<open>strtoul\<close> and
  \<open>strlen\<close> below it, see the bytes before the first NUL byte and nothing of what
  follows it in the line.
\<close>

definition c_str :: "string \<Rightarrow> string" where
  "c_str buffer = takeWhile (\<lambda>c. c \<noteq> CHR 0x00) buffer"

text \<open>
  The loop \<open>while (getline(&line, &len, fp) != -1)\<close> with its flag \<open>first\<close>, over
  the lines as \<open>parse_line\<close> sees them.
\<close>

fun read_lines ::
  "('r, 'd) environment \<Rightarrow> string list \<Rightarrow> bool \<Rightarrow> ('r, 'd) profiles_state
   \<Rightarrow> bool outcome \<times> ('r, 'd) profiles_state" where
  "read_lines env [] first st = (Returned True, st)"
| "read_lines env (line # rest) first st =
     (case parse_line env line first st of
        (Returned True, st') \<Rightarrow> read_lines env rest False st'
      | (Returned False, st') \<Rightarrow> (Returned False, st')
      | (Raised msg, st') \<Rightarrow> (Raised msg, st'))"

definition parse_stats_file ::
  "('r, 'd) environment \<Rightarrow> string \<Rightarrow> ('r, 'd) profiles_state
   \<Rightarrow> bool outcome \<times> ('r, 'd) profiles_state" where
  "parse_stats_file env csv_filename st =
     (if csv_filename = [] then (Returned False, st)
      else
        (case fopen env csv_filename of
           Inl e \<Rightarrow>
             (Returned False,
              st\<lparr>errno := e,
                 cerr := cerr st @ ''FAILED to open '' @ csv_filename @ '': ''
                         @ strerror env e @ ''\<newline>''\<rparr>)
         | Inr contents \<Rightarrow>
             (case read_lines env (map c_str (getlines contents)) True st of
                (Returned True, st') \<Rightarrow>
                  (if errno st' \<noteq> 0
                   then (Returned False,
                         st'\<lparr>cerr := cerr st' @ ''FAILED to read a line: ''
                                  @ strerror env (errno st') @ ''\<newline>''\<rparr>)
                   else (Returned True, st'))
              | (Returned False, st') \<Rightarrow> (Returned False, st')
              | (Raised msg, st') \<Rightarrow> (Raised msg, st'))))"

subsection \<open>An environment to run the reader in\<close>

text \<open>
  Concrete inputs for the examples: conversions that read an unsigned decimal numeral
  (digits, and for \<open>strtod\<close> an optional fraction) as the C library does, with the
  rational number the text denotes standing for the double; \<open>strtoul\<close> saturates
  at \<open>ULONG_MAX\<close> and sets \<open>errno\<close> to \<open>ERANGE\<close> (34). The file system holds one
  file, \<open>stats.csv\<close>; one method name resolves.
\<close>

definition is_digit :: "char \<Rightarrow> bool" where
  "is_digit c = (48 \<le> (of_char c :: int) \<and> (of_char c :: int) \<le> 57)"

definition decimal :: "string \<Rightarrow> int" where
  "decimal ds = foldl (\<lambda>a c. 10 * a + (of_char c - 48)) 0 ds"

definition plain_strtoul :: "string \<Rightarrow> 64 word conversion" where
  "plain_strtoul tok =
     (let ds = takeWhile is_digit tok; n = decimal ds
      in if ds = [] then \<lparr>result = 0, consumed = 0, sets_errno = None\<rparr>
         else if n < 2 ^ 64 then \<lparr>result = word_of_int n, consumed = length ds, sets_errno = None\<rparr>
         else \<lparr>result = - 1, consumed = length ds, sets_errno = Some 34\<rparr>)"

definition plain_strtod :: "string \<Rightarrow> rat conversion" where
  "plain_strtod tok =
     (let ds = takeWhile is_digit tok; after = drop (length ds) tok
      in if ds = [] then \<lparr>result = 0, consumed = 0, sets_errno = None\<rparr>
         else if after \<noteq> [] \<and> hd after = CHR ''.'' then
           (let fs = takeWhile is_digit (tl after)
            in \<lparr>result = of_int (decimal ds) + of_int (decimal fs) / 10 ^ length fs,
                consumed = length ds + 1 + length fs, sets_errno = None\<rparr>)
         else \<lparr>result = of_int (decimal ds), consumed = length ds, sets_errno = None\<rparr>)"

definition example_env :: "string \<Rightarrow> (nat, rat) environment" where
  "example_env contents =
     \<lparr>fopen = (\<lambda>name. if name = ''stats.csv'' then Inr contents else Inl 2),
      strerror = (\<lambda>e. if e = 2 then ''No such file or directory'' else ''Unknown error''),
      strtod = plain_strtod,
      strtoul = plain_strtoul,
      DexMethod_get_method = (\<lambda>name. if name = ''LfooV;.bar:()V'' then Some 1 else None),
      initial_stats = \<lparr>appear_percent = 0, call_count = 0, order_percent = 0, min_api_level = 0\<rparr>\<rparr>"

definition fresh :: "(nat, rat) profiles_state" where
  "fresh = \<lparr>m_method_stats = Map.empty, errno = 0, cerr = []\<rparr>"

text \<open>
  The file of the specification's example, in pieces: the header line without its
  line break, the data row without its line break, a file in which a row with a
  malformed cell follows a good one, and one in which that row has two malformed cells.
\<close>

definition example_header :: string where
  "example_header = ''index,name,appear100,appear#,avg_call,avg_order,avg_rank100,min_api_level''"

definition example_row :: string where
  "example_row = ''0,LfooV;.bar:()V,12.5,100,3.2,5,50.0,21''"

definition csv_with_bad_row :: string where
  "csv_with_bad_row =
     example_header @ '',\<newline>'' @ example_row @ ''\<newline>'' @
     ''1,LfooV;.baz:()V,abc,100,3.2,5,50.0,21\<newline>'' @
     ''2,LfooV;.qux:()V,1.0,100,3.2,5,50.0,21\<newline>''"

definition csv_with_two_bad_cells :: string where
  "csv_with_two_bad_cells =
     example_header @ '',\<newline>'' @ example_row @ ''\<newline>'' @
     ''1,LfooV;.baz:()V,abc,100,3.2,5,50.0,21x\<newline>'' @
     ''2,LfooV;.qux:()V,1.0,100,3.2,5,50.0,21\<newline>''"

definition csv_with_unresolved_row :: string where
  "csv_with_unresolved_row =
     example_header @ '',\<newline>'' @
     ''0,LfooV;.gone:()V,1.5,7,2.0,3,4.5,19\<newline>'' @
     ''1,LfooV;.bar:()V,12.5,100,3.2,5,50.0,21\<newline>''"

definition csv_with_level_300 :: string where
  "csv_with_level_300 =
     example_header @ '',\<newline>'' @ ''0,LfooV;.bar:()V,12.5,100,3.2,5,50.0,300\<newline>''"

subsection \<open>Well-formed cells, in the specification's words\<close>

text \<open>
  A numeric cell must parse fully, except for an optional single trailing line break:
  the conversion consumes something, and what it leaves is nothing or one line break.
  The numeric columns are appear100, avg_call and avg_rank100 (doubles) and
  min_api_level (a byte); every other cell among the first eight is well-formed as
  it stands.
\<close>

definition parses_fully :: "'v conversion \<Rightarrow> string \<Rightarrow> bool" where
  "parses_fully c tok \<longleftrightarrow>
     drop (consumed c) tok \<noteq> tok \<and>
     (drop (consumed c) tok = [] \<or> drop (consumed c) tok = ''\<newline>'')"

definition well_formed_cell :: "('r, 'd) environment \<Rightarrow> nat \<Rightarrow> string \<Rightarrow> bool" where
  "well_formed_cell env i tok =
     (if i = APPEAR100 \<or> i = AVG_CALL \<or> i = AVG_RANK100 then parses_fully (strtod env tok) tok
      else if i = MIN_API_LEVEL then parses_fully (strtoul env tok) tok
      else True)"

definition well_formed_row :: "('r, 'd) environment \<Rightarrow> string list \<Rightarrow> bool" where
  "well_formed_row env cells \<longleftrightarrow>
     length cells \<le> 8 \<and> list_all (\<lambda>i. well_formed_cell env i (cells ! i)) [0..<length cells]"

text \<open>The header is accepted when every cell is the expected text of its column.\<close>

definition header_matches_from :: "nat \<Rightarrow> string list \<Rightarrow> bool" where
  "header_matches_from i cells =
     list_all (\<lambda>j. take MAX_CELL_LENGTH (cells ! j) = take MAX_CELL_LENGTH (expected_header (i + j)))
       [0..<length cells]"

definition header_matches :: "string list \<Rightarrow> bool" where
  "header_matches cells = header_matches_from 0 cells"

text \<open>The type named in the message of a failed conversion.\<close>

definition cell_kind :: "nat \<Rightarrow> string" where
  "cell_kind i = (if i = MIN_API_LEVEL then ''uint8_t'' else ''double'')"

section \<open>Properties of the combinators\<close>

text \<open>
  C2. For all predicates \<open>p\<close>, \<open>q\<close> over the same entity type and every entity \<open>t\<close>:
  the negation matches exactly when \<open>p\<close> does not, the conjunction exactly when both
  match, the disjunction exactly when one of them matches, and the exclusive or
  exactly when the two answers differ.
\<close>

theorem combinators_boolean_semantics:
  "matches (operator_not p) t = (\<not> matches p t)
   \<and> matches (operator_and p q) t = (matches p t \<and> matches q t)
   \<and> matches (operator_or p q) t = (matches p t \<or> matches q t)
   \<and> matches (operator_xor p q) t = (matches p t \<noteq> matches q t)"
  by (cases "matches p t"; cases "matches q t")
     (simp_all add: operator_not_def operator_and_def operator_or_def operator_xor_def
        matcher_def matches_def)

section \<open>Properties of the searches\<close>

lemma find_insn_match_filter:
  "find_insn_match insns p matches_out = matches_out @ filter (matches p) insns"
  by (induction insns arbitrary: matches_out) simp_all

text \<open>Below \<open>2^31\<close> the two conversions give the index back.\<close>

lemma int_of_size_t_small: "n < 2 ^ 31 \<Longrightarrow> int_of_size_t n = int n"
  by (simp add: int_of_size_t_def INT_MAX_def Let_def)

lemma size_t_of_int_nat: "n < 2 ^ 31 \<Longrightarrow> size_t_of_int (int n) = n"
  by (simp add: size_t_of_int_def)

lemma int_of_size_t_2_31: "int_of_size_t (2 ^ 31) = - (2 ^ 31)"
  by (simp add: int_of_size_t_def INT_MAX_def Let_def)

lemma size_t_of_int_negative: "size_t_of_int (- (2 ^ 31)) = 2 ^ 64 - 2 ^ 31"
  by (simp add: size_t_of_int_def)

text \<open>
  Inside a vector of fewer than \<open>2^31\<close> instructions \<open>matches_at\<close> neither throws
  nor overflows, and answers position by position.
\<close>

lemma matches_at_in_range:
  "pos + length t \<le> length insns \<Longrightarrow> length insns < 2 ^ 31 \<Longrightarrow>
   matches_at (int pos) insns t = Inr (\<forall>k<length t. matches (t ! k) (insns ! (pos + k)))"
proof (induction t arbitrary: pos)
  case Nil
  then show ?case by simp
next
  case (Cons insn_match t)
  from Cons.prems have step: "Suc pos + length t \<le> length insns" and here: "pos < length insns"
    by simp_all
  from here Cons.prems(2) have small: "pos < 2 ^ 31" and below: "int pos \<noteq> INT_MAX"
    by (simp_all add: INT_MAX_def)
  have next_pos: "int pos + 1 = int (Suc pos)"
    by simp
  show ?case
    using Cons.IH [OF step Cons.prems(2)] here below
    unfolding matches_at.simps size_t_of_int_nat [OF small] next_pos
    by (simp add: All_less_Suc2)
qed

lemma copy_window_in_range:
  "i + N \<le> length insns \<Longrightarrow> c \<le> N \<Longrightarrow>
   copy_window c N i insns acc = (None, acc @ take (N - c) (drop (i + c) insns))"
proof (induction c N i insns acc rule: copy_window.induct)
  case (1 c N i insns acc)
  show ?case
  proof (cases "c < N")
    case True
    with "1.prems" have inside: "i + c < length insns" by simp
    have "take (N - c) (drop (i + c) insns)
          = insns ! (i + c) # take (N - Suc c) (drop (Suc (i + c)) insns)"
      using True inside
      by (metis Cons_nth_drop_Suc Suc_diff_Suc take_Suc_Cons)
    with True inside "1.IH" "1.prems" show ?thesis
      by (subst copy_window.simps) simp
  next
    case False
    with "1.prems" show ?thesis by (subst copy_window.simps) simp
  qed
qed

lemma copy_window_extends:
  "\<exists>e more. copy_window c N i insns acc = (e, acc @ more)"
proof (induction c N i insns acc rule: copy_window.induct)
  case (1 c N i insns acc)
  show ?case
  proof (cases "c < N \<and> i + c < length insns")
    case True
    with "1.IH" obtain e more where
      "copy_window (c + 1) N i insns (acc @ [insns ! (i + c)]) = (e, (acc @ [insns ! (i + c)]) @ more)"
      by blast
    with True show ?thesis
      by (subst copy_window.simps) simp
  next
    case False
    then show ?thesis
      by (subst copy_window.simps) auto
  qed
qed

lemma window_matches_iff:
  "window_matches insns p s = (\<forall>k<length p. matches (p ! k) (insns ! (s + k)))"
  by (auto simp: window_matches_def list_all_iff)

lemma find_matches_loop_windows:
  "length p \<le> length insns \<Longrightarrow> length insns < 2 ^ 31 \<Longrightarrow>
   i \<le> Suc (length insns - length p) \<Longrightarrow>
   find_matches_loop i insns p acc =
     (None, acc @ map (window insns (length p))
            (filter (window_matches insns p) [i..<Suc (length insns - length p)]))"
proof (induction i insns p acc rule: find_matches_loop.induct)
  case (1 i insns p acc)
  show ?case
  proof (cases "i \<le> length insns - length p")
    case False
    with "1.prems" have "i = Suc (length insns - length p)" by simp
    then show ?thesis by (subst find_matches_loop.simps) simp
  next
    case inside: True
    with "1.prems" have fits: "i + length p \<le> length insns" by simp
    with "1.prems"(2) have small: "i < 2 ^ 31" by simp
    have m: "matches_at (int_of_size_t i) insns p = Inr (window_matches insns p i)"
      by (simp add: int_of_size_t_small [OF small] matches_at_in_range [OF fits "1.prems"(2)]
            window_matches_iff)
    have c: "copy_window 0 (length p) i insns [] = (None, window insns (length p) i)"
      using copy_window_in_range [OF fits, of 0 "[]"] by (simp add: window_def)
    have u: "[i..<Suc (length insns - length p)] = i # [Suc i..<Suc (length insns - length p)]"
      using inside by (simp add: upt_conv_Cons)
    show ?thesis
    proof (cases "window_matches insns p i")
      case True
      have "find_matches_loop (i + 1) insns p (acc @ [window insns (length p) i]) =
        (None, (acc @ [window insns (length p) i]) @ map (window insns (length p))
            (filter (window_matches insns p) [i + 1..<Suc (length insns - length p)]))"
        using "1.prems" inside True
        by (intro "1.IH"(1) [OF inside m _ c [symmetric] refl]) simp_all
      then show ?thesis
        using m c u True inside by (subst find_matches_loop.simps) simp
    next
      case False
      have "find_matches_loop (i + 1) insns p acc =
        (None, acc @ map (window insns (length p))
            (filter (window_matches insns p) [i + 1..<Suc (length insns - length p)]))"
        using "1.prems" inside False
        by (intro "1.IH"(2) [OF inside m]) simp_all
      then show ?thesis
        using m u False inside by (subst find_matches_loop.simps) simp
    qed
  qed
qed

lemma find_matches_appends:
  "length insns < 2 ^ 31 \<Longrightarrow>
   find_matches insns p matches_out = (None, matches_out @ matching_windows insns p)"
  by (simp add: find_matches_def matching_windows_def find_matches_loop_windows)

lemma matching_windows_length:
  "w \<in> set (matching_windows insns p) \<Longrightarrow> length w = length p"
  by (auto simp: matching_windows_def window_def split: if_splits)



lemma never_matches: "\<not> matches never x"
  by (simp add: never_def operator_not_def any_def matcher_def matches_def)

lemma any_matches: "matches any x"
  by (simp add: any_def matcher_def matches_def)

text \<open>
  On a list of \<open>2^31 + 1\<close> instructions and a pattern that never matches, the loop
  reaches the start \<open>2^31\<close>, which \<open>matches_at\<close> receives as \<open>-2^31\<close>.
\<close>

lemma long_list_loop_throws:
  assumes "length insns = 2 ^ 31 + 1" and "i \<le> 2 ^ 31"
  shows "find_matches_loop i insns [never] acc = (Some Out_of_range, acc)"
  using assms(2)
proof (induction rule: inc_induct)
  case base
  show ?case
    using assms(1)
    by (subst find_matches_loop.simps)
       (simp add: int_of_size_t_def size_t_of_int_def INT_MAX_def Let_def)
next
  case (step n)
  then have small: "n < 2 ^ 31" by simp
  show ?case
    using assms(1) step.IH small
    by (subst find_matches_loop.simps)
       (simp add: int_of_size_t_small [OF small] size_t_of_int_nat [OF small] never_matches)
qed

text \<open>
  A list of exactly \<open>2^31\<close> instructions is the first that is too long: a match at
  its last start, \<open>INT_MAX\<close>, makes \<open>at + 1\<close> overflow.
\<close>

lemma last_start_overflows:
  assumes "length insns = 2 ^ 31"
    and "\<forall>k<2 ^ 31 - 1. \<not> matches q (insns ! k)"
    and "matches q (insns ! (2 ^ 31 - 1))"
    and "i \<le> 2 ^ 31 - 1"
  shows "find_matches_loop i insns [q] acc = (Some Signed_overflow, acc)"
  using assms(4)
proof (induction rule: inc_induct)
  case base
  show ?case
    using assms(1,3)
    by (subst find_matches_loop.simps)
       (simp add: int_of_size_t_def size_t_of_int_def INT_MAX_def Let_def)
next
  case (step n)
  then have small: "n < 2 ^ 31" and below: "n < 2 ^ 31 - 1" by simp_all
  from assms(2) below have no: "\<not> matches q (insns ! n)" by blast
  show ?case
    using assms(1) step.IH small no
    by (subst find_matches_loop.simps)
       (simp add: int_of_size_t_small [OF small] size_t_of_int_nat [OF small])
qed

lemma find_matches_overflows_at_last_start:
  "find_matches (replicate (2 ^ 31 - 1) (0 :: nat) @ [1]) [matcher (\<lambda>x. x = 1)] []
     = (Some Signed_overflow, [])"
proof -
  let ?insns = "replicate (2 ^ 31 - 1) (0 :: nat) @ [1]"
  have len: "length ?insns = 2 ^ 31" by simp
  have none: "\<forall>k<2 ^ 31 - 1. \<not> matches (matcher (\<lambda>x. x = 1)) (?insns ! k)"
    by (simp add: nth_append matches_def matcher_def)
  have last: "matches (matcher (\<lambda>x. x = 1)) (?insns ! (2 ^ 31 - 1))"
    by (simp add: nth_append matches_def matcher_def)
  from last_start_overflows [OF len none last, of 0 "[]"]
  show ?thesis
    by (simp add: find_matches_def)
qed

text \<open>The call on vectors in memory, when list and output are two objects.\<close>

lemma find_insn_match_from_separate:
  "insns \<noteq> matches_out \<Longrightarrow> k \<le> n \<Longrightarrow> n = length (insn_vectors mem insns) \<Longrightarrow>
   find_insn_match_from k n insns p matches_out mem =
     (None, mem\<lparr>insn_vectors := (insn_vectors mem)
        (matches_out := find_insn_match (drop k (insn_vectors mem insns)) p
                          (insn_vectors mem matches_out))\<rparr>)"
proof (induction k n insns p matches_out mem rule: find_insn_match_from.induct)
  case (1 k n insns p matches_out mem)
  show ?case
  proof (cases "k < n")
    case False
    with "1.prems" show ?thesis
      by (subst find_insn_match_from.simps) simp
  next
    case True
    let ?x = "insn_vectors mem insns ! k"
    from True "1.prems" have d: "drop k (insn_vectors mem insns) = ?x # drop (k + 1) (insn_vectors mem insns)"
      by (simp add: Cons_nth_drop_Suc)
    show ?thesis
    proof (cases "matches p ?x")
      case m: True
      let ?mem' = "mem\<lparr>insn_vectors :=
                          (insn_vectors mem)(matches_out := insn_vectors mem matches_out @ [?x])\<rparr>"
      have list': "insn_vectors ?mem' insns = insn_vectors mem insns"
        using "1.prems"(1) by simp
      have out': "insn_vectors ?mem' matches_out = insn_vectors mem matches_out @ [?x]"
        by simp
      have upd: "?mem'\<lparr>insn_vectors := (insn_vectors ?mem')(matches_out := v)\<rparr>
          = mem\<lparr>insn_vectors := (insn_vectors mem)(matches_out := v)\<rparr>" for v
        by simp
      have "k + 1 \<le> n" "n = length (insn_vectors ?mem' insns)"
        using True "1.prems" list' by simp_all
      from "1.IH"(1) [OF True refl m refl "1.prems"(1) "1.prems"(1) this]
      have step: "find_insn_match_from (k + 1) n insns p matches_out ?mem' =
        (None, mem\<lparr>insn_vectors := (insn_vectors mem)
          (matches_out := find_insn_match (drop (k + 1) (insn_vectors mem insns)) p
                            (insn_vectors mem matches_out @ [?x]))\<rparr>)"
        unfolding list' out' upd .
      have "find_insn_match_from k n insns p matches_out mem =
          find_insn_match_from (k + 1) n insns p matches_out ?mem'"
        using True m "1.prems"(1) by (subst find_insn_match_from.simps) (simp add: Let_def)
      also note step
      finally have r: "find_insn_match_from k n insns p matches_out mem =
        (None, mem\<lparr>insn_vectors := (insn_vectors mem)
          (matches_out := find_insn_match (drop (k + 1) (insn_vectors mem insns)) p
                            (insn_vectors mem matches_out @ [?x]))\<rparr>)" .
      have fm: "find_insn_match (?x # drop (k + 1) (insn_vectors mem insns)) p
                  (insn_vectors mem matches_out)
          = find_insn_match (drop (k + 1) (insn_vectors mem insns)) p
                  (insn_vectors mem matches_out @ [?x])"
        using m by simp
      show ?thesis
        unfolding d fm by (rule r)
    next
      case m: False
      have le: "k + 1 \<le> n" using True by simp
      have step: "find_insn_match_from (k + 1) n insns p matches_out mem =
        (None, mem\<lparr>insn_vectors := (insn_vectors mem)
          (matches_out := find_insn_match (drop (k + 1) (insn_vectors mem insns)) p
                            (insn_vectors mem matches_out))\<rparr>)"
        by (rule "1.IH"(2) [OF True refl m "1.prems"(1) le "1.prems"(3)])
      have "find_insn_match_from k n insns p matches_out mem =
          find_insn_match_from (k + 1) n insns p matches_out mem"
        using True m by (subst find_insn_match_from.simps) (simp add: Let_def)
      also note step
      finally have r: "find_insn_match_from k n insns p matches_out mem =
        (None, mem\<lparr>insn_vectors := (insn_vectors mem)
          (matches_out := find_insn_match (drop (k + 1) (insn_vectors mem insns)) p
                            (insn_vectors mem matches_out))\<rparr>)" .
      have fm: "find_insn_match (?x # drop (k + 1) (insn_vectors mem insns)) p
                  (insn_vectors mem matches_out)
          = find_insn_match (drop (k + 1) (insn_vectors mem insns)) p
                  (insn_vectors mem matches_out)"
        using m by simp
      show ?thesis
        unfolding d fm by (rule r)
    qed
  qed
qed

lemma find_insn_match_call_separate:
  "insns \<noteq> matches_out \<Longrightarrow>
   find_insn_match_call insns p matches_out mem =
     (None, mem\<lparr>insn_vectors := (insn_vectors mem)
        (matches_out := insn_vectors mem matches_out @ filter (matches p) (insn_vectors mem insns))\<rparr>)"
  by (simp add: find_insn_match_call_def find_insn_match_from_separate find_insn_match_filter)


text \<open>
  The claim as the specification states it fails on a list of \<open>2^31 + 1\<close>
  instructions with a pattern of one predicate that matches nothing: no window
  qualifies, so the result should be empty, but at the start \<open>2^31\<close> the index
  reaches \<open>matches_at\<close> as the \<open>int\<close> \<open>-2^31\<close> and \<open>insns.at\<close> throws.
\<close>

theorem find_matches_throws_on_long_list:
  "find_matches (replicate (2 ^ 31 + 1) (0 :: nat)) [never] [] = (Some Out_of_range, [])"
  by (simp add: find_matches_def long_list_loop_throws)

text \<open>
  C1, as the code has it. For every instruction list of length \<open>L\<close> below \<open>2^31\<close>
  and every pattern of \<open>N\<close> predicates, \<open>find_matches\<close>, started on an empty
  output vector, returns without an exception; it reports exactly the windows
  \<open>[s, s + N)\<close> with \<open>s\<close> in \<open>[0, L - N]\<close> whose every position matches its
  predicate, in ascending order of \<open>s\<close> (overlapping and adjacent windows included),
  each as the list of its \<open>N\<close> instructions; for \<open>L < N\<close> the result is empty.
\<close>

theorem find_matches_reports_windows:
  assumes "length insns < 2 ^ 31"
  shows "(length p \<le> length insns \<longrightarrow>
      find_matches insns p [] =
        (None, map (\<lambda>s. take (length p) (drop s insns))
               (filter (\<lambda>s. \<forall>k<length p. matches (p ! k) (insns ! (s + k)))
                  [0..<Suc (length insns - length p)])))
   \<and> (length insns < length p \<longrightarrow> find_matches insns p [] = (None, []))
   \<and> find_matches insns p [] = (None, matching_windows insns p)
   \<and> (\<forall>w \<in> set (matching_windows insns p). length w = length p)"
proof (intro conjI impI ballI)
  show spec: "find_matches insns p [] = (None, matching_windows insns p)"
    using find_matches_appends [OF assms, of p "[]"] by simp
  show "find_matches insns p [] = (None, [])" if "length insns < length p"
    using that by (simp add: find_matches_def)
  show "length w = length p" if "w \<in> set (matching_windows insns p)" for w
    using that by (rule matching_windows_length)
  show "find_matches insns p [] =
        (None, map (\<lambda>s. take (length p) (drop s insns))
               (filter (\<lambda>s. \<forall>k<length p. matches (p ! k) (insns ! (s + k)))
                  [0..<Suc (length insns - length p)]))"
    if fits: "length p \<le> length insns"
  proof -
    have w: "window insns (length p) = (\<lambda>s. take (length p) (drop s insns))"
      by (rule ext) (simp add: window_def)
    have m: "window_matches insns p = (\<lambda>s. \<forall>k<length p. matches (p ! k) (insns ! (s + k)))"
      by (rule ext) (rule window_matches_iff)
    have "matching_windows insns p =
        map (window insns (length p))
          (filter (window_matches insns p) [0..<Suc (length insns - length p)])"
      using fits by (simp add: matching_windows_def)
    then show ?thesis
      unfolding spec w m by simp
  qed
qed

text \<open>
  The testable property of the specification: five instructions and a pattern of two
  predicates that matches at the starts 1, 2 and 3; and a list shorter than the pattern.
\<close>

theorem find_matches_reports_windows_witness:
  "find_matches [10, 21, 22, 23, 24 :: nat]
     [matcher (\<lambda>x. 20 \<le> x), matcher (\<lambda>x. 20 \<le> x)] []
     = (None, [[21, 22], [22, 23], [23, 24]])
   \<and> matching_windows [10, 21, 22, 23, 24 :: nat]
        [matcher (\<lambda>x. 20 \<le> x), matcher (\<lambda>x. 20 \<le> x)]
     = [[21, 22], [22, 23], [23, 24]]
   \<and> length [21, 22 :: nat] = 2
   \<and> find_matches [21 :: nat] [matcher (\<lambda>x. 20 \<le> x), matcher (\<lambda>x. 20 \<le> x)] [] = (None, [])"
proof -
  let ?p = "[matcher (\<lambda>x. 20 \<le> x), matcher (\<lambda>x. (20 :: nat) \<le> x)]"
  let ?insns = "[10, 21, 22, 23, 24 :: nat]"
  have short: "length [21 :: nat] < length ?p"
    by simp
  have fits: "length ?p \<le> length ?insns"
    by simp
  have len5: "length ?insns < 2 ^ 31"
    by simp
  have len1: "length [21 :: nat] < 2 ^ 31"
    by simp
  note t = find_matches_reports_windows [OF len5, where p = ?p]
  have starts: "filter (\<lambda>s. \<forall>k<length ?p. matches (?p ! k) (?insns ! (s + k)))
      [0..<Suc (length ?insns - length ?p)] = [1, 2, 3]"
    by (simp add: upt_rec matches_def matcher_def All_less_Suc numeral_2_eq_2)
  have found: "find_matches ?insns ?p [] = (None, [[21, 22], [22, 23], [23, 24]])"
    using t [THEN conjunct1, rule_format, OF fits]
    unfolding starts by simp
  have "find_matches ?insns ?p [] = (None, matching_windows ?insns ?p)"
    by (rule t [THEN conjunct2, THEN conjunct2, THEN conjunct1])
  with found have windows: "matching_windows ?insns ?p = [[21, 22], [22, 23], [23, 24]]"
    by simp
  then have member: "[21, 22] \<in> set (matching_windows ?insns ?p)"
    by simp
  have size: "length [21, 22 :: nat] = 2"
    using t [THEN conjunct2, THEN conjunct2, THEN conjunct2, rule_format, OF member]
    by simp
  have none: "find_matches [21 :: nat] ?p [] = (None, [])"
    by (rule find_matches_reports_windows
              [OF len1, where p = ?p, THEN conjunct2, THEN conjunct1, rule_format, OF short])
  from found windows size none show ?thesis
    by simp
qed

text \<open>
  The claim as the specification states it fails on a list in which an instruction
  occurs twice: it is reported twice.
\<close>

theorem find_insn_match_reports_repeats:
  "find_insn_match [8, 3, 8 :: nat] any [] = [8, 3, 8]
   \<and> count_list (find_insn_match [8, 3, 8 :: nat] any []) 8 = 2
   \<and> \<not> distinct (find_insn_match [8, 3, 8 :: nat] any [])"
  by (simp add: any_matches)

text \<open>
  C5, as the code has it. For every instruction list and every predicate \<open>p\<close>,
  \<open>find_insn_match\<close>, started on an empty output vector, returns exactly the
  instructions of the list that satisfy \<open>p\<close>, in the order of the list, each entry
  of the list once: an instruction that satisfies \<open>p\<close> occurs in the output as often
  as in the list, and any other not at all. So an instruction appears at most once in
  the output when the list holds it at most once. The same holds of the call on
  vectors in memory, whose output vector is empty on entry.
\<close>

theorem find_insn_match_exact:
  "find_insn_match insns p [] = filter (matches p) insns
   \<and> (\<forall>insn. count_list (find_insn_match insns p []) insn
        = (if matches p insn then count_list insns insn else 0))
   \<and> (distinct insns \<longrightarrow> distinct (find_insn_match insns p []))
   \<and> (insn_vectors mem matches_out = [] \<longrightarrow>
        find_insn_match_call list p matches_out mem =
          (None, mem\<lparr>insn_vectors := (insn_vectors mem)
             (matches_out := filter (matches p) (insn_vectors mem list))\<rparr>))"
proof -
  have count: "count_list (filter P xs) x = (if P x then count_list xs x else 0)"
    for P and xs :: "'a list" and x
    by (induction xs) auto
  have call: "find_insn_match_call list p matches_out mem =
          (None, mem\<lparr>insn_vectors := (insn_vectors mem)
             (matches_out := filter (matches p) (insn_vectors mem list))\<rparr>)"
    if empty: "insn_vectors mem matches_out = []"
  proof (cases "list = matches_out")
    case False
    from find_insn_match_call_separate [OF False, of p mem] empty show ?thesis
      by simp
  next
    case True
    have "(insn_vectors mem)(matches_out := []) = insn_vectors mem"
      using empty by (metis fun_upd_triv)
    with True empty show ?thesis
      by (simp add: find_insn_match_call_def find_insn_match_from.simps)
  qed
  show ?thesis
    using call by (simp add: find_insn_match_filter count)
qed

theorem find_insn_match_exact_witness:
  "find_insn_match [3, 8, 5, 12, 7 :: nat] (matcher (\<lambda>x. 6 \<le> x)) [] = [8, 12, 7]
   \<and> distinct (find_insn_match [3, 8, 5, 12, 7 :: nat] (matcher (\<lambda>x. 6 \<le> x)) [])
   \<and> insn_vectors (snd (find_insn_match_call 0 any 2 example_memory)) 2 = [8, 3]"
proof -
  have d: "distinct [3, 8, 5, 12, 7 :: nat]"
    by simp
  have e: "insn_vectors example_memory 2 = []"
    by (simp add: example_memory_def)
  note t = find_insn_match_exact [where insns = "[3, 8, 5, 12, 7 :: nat]"
      and p = "matcher (\<lambda>x. 6 \<le> x)"]
  have a: "find_insn_match [3, 8, 5, 12, 7 :: nat] (matcher (\<lambda>x. 6 \<le> x)) [] = [8, 12, 7]"
    using t [THEN conjunct1] by (simp add: matches_def matcher_def)
  have b: "distinct (find_insn_match [3, 8, 5, 12, 7 :: nat] (matcher (\<lambda>x. 6 \<le> x)) [])"
    by (rule t [THEN conjunct2, THEN conjunct2, THEN conjunct1, rule_format, OF d])
  have c: "insn_vectors (snd (find_insn_match_call 0 any 2 example_memory)) 2 = [8, 3]"
    using find_insn_match_exact [where p = any and mem = example_memory and matches_out = 2
        and list = 0, THEN conjunct2, THEN conjunct2, THEN conjunct2, rule_format, OF e]
    by (simp add: any_matches example_memory_def)
  from a b c show ?thesis
    by simp
qed




section \<open>Properties of the type-hierarchy predicate\<close>

lemma derives_iff:
  "(t, u) \<in> derives h \<longleftrightarrow> (\<exists>cls. type_class_of h t = Some cls \<and> u \<in> set (direct_supertypes cls))"
  by (auto simp: derives_def direct_supertypes_def split: option.splits)

lemma walk_sound:
  "walk h parent visited todo \<Longrightarrow> \<exists>w \<in> set todo. (w, parent) \<in> (derives h)\<^sup>*"
proof (induction h parent visited todo rule: walk.induct)
  case (1 h parent visited)
  then show ?case by simp
next
  case (2 h parent visited t todo)
  show ?case
  proof (cases "t = parent")
    case True
    then show ?thesis by auto
  next
    case ne: False
    show ?thesis
    proof (cases "type_class_of h t")
      case None
      with ne 2 show ?thesis by auto
    next
      case (Some cls)
      show ?thesis
      proof (cases "t \<in> visited")
        case True
        with ne Some 2 show ?thesis by auto
      next
        case False
        with ne Some "2.prems" have "walk h parent (insert t visited) (direct_supertypes cls @ todo)"
          by simp
        from "2.IH"(3) [OF ne Some False this]
        obtain w where w: "w \<in> set (direct_supertypes cls) \<union> set todo" "(w, parent) \<in> (derives h)\<^sup>*"
          by auto
        show ?thesis
        proof (cases "w \<in> set todo")
          case True
          with w show ?thesis by auto
        next
          case False
          with w have "(t, w) \<in> derives h"
            using Some by (auto simp: derives_iff)
          with w have "(t, parent) \<in> (derives h)\<^sup>*"
            by (meson converse_rtrancl_into_rtrancl)
          then show ?thesis by auto
        qed
      qed
    qed
  qed
qed

lemma dead_end:
  assumes "type_class_of h u = None" "(u, parent) \<in> (derives h)\<^sup>*"
  shows "u = parent"
  using assms(2,1) by (induction rule: converse_rtrancl_induct) (auto simp: derives_def)

lemma visited_reaches_via_todo:
  assumes "closed_but h parent visited todo" "(v, parent) \<in> (derives h)\<^sup>*" "v \<in> visited"
  shows "\<exists>w \<in> set todo. (w, parent) \<in> (derives h)\<^sup>*"
  using assms(2,3)
proof (induction rule: converse_rtrancl_induct)
  case base
  with assms(1) show ?case by (simp add: closed_but_def)
next
  case (step v u)
  from assms(1) step.hyps(1) step.prems
  have "u \<in> visited \<or> u \<in> set todo \<or> (u \<noteq> parent \<and> type_class_of h u = None)"
    by (simp add: closed_but_def)
  then show ?case
  proof (elim disjE conjE)
    assume "u \<in> visited"
    then show ?thesis by (rule step.IH)
  next
    assume "u \<in> set todo"
    with step.hyps(2) show ?thesis by blast
  next
    assume "u \<noteq> parent" "type_class_of h u = None"
    with dead_end [OF _ step.hyps(2)] show ?thesis by simp
  qed
qed

lemma walk_complete:
  "closed_but h parent visited todo \<Longrightarrow> w \<in> set todo \<Longrightarrow> (w, parent) \<in> (derives h)\<^sup>* \<Longrightarrow>
   walk h parent visited todo"
proof (induction h parent visited todo arbitrary: w rule: walk.induct)
  case (1 h parent visited)
  then show ?case by simp
next
  case (2 h parent visited t todo)
  show ?case
  proof (cases "t = parent")
    case True
    then show ?thesis by simp
  next
    case ne: False
    show ?thesis
    proof (cases "type_class_of h t")
      case None
      have inv: "closed_but h parent visited todo"
        using "2.prems"(1) None ne unfolding closed_but_def by auto
      have "w \<noteq> t"
        using dead_end [OF None] "2.prems"(3) ne by blast
      with "2.prems"(2) have "w \<in> set todo" by simp
      from "2.IH"(1) [OF ne None inv this "2.prems"(3)] ne None
      show ?thesis by simp
    next
      case (Some cls)
      show ?thesis
      proof (cases "t \<in> visited")
        case True
        have inv: "closed_but h parent visited todo"
          using "2.prems"(1) True unfolding closed_but_def by auto
        have "\<exists>w' \<in> set todo. (w', parent) \<in> (derives h)\<^sup>*"
        proof (cases "w = t")
          case True
          with \<open>t \<in> visited\<close> "2.prems"(3) visited_reaches_via_todo [OF inv]
          show ?thesis by blast
        next
          case False
          with "2.prems" show ?thesis by auto
        qed
        then obtain w' where "w' \<in> set todo" "(w', parent) \<in> (derives h)\<^sup>*" by blast
        from "2.IH"(2) [OF ne Some True inv this] ne Some True
        show ?thesis by simp
      next
        case False
        have inv: "closed_but h parent (insert t visited) (direct_supertypes cls @ todo)"
          using "2.prems"(1) ne Some unfolding closed_but_def
          by (auto simp: derives_iff)
        have "\<exists>w' \<in> set (direct_supertypes cls @ todo). (w', parent) \<in> (derives h)\<^sup>*"
        proof (cases "w = t")
          case True
          with "2.prems"(3) ne obtain u where "(t, u) \<in> derives h" "(u, parent) \<in> (derives h)\<^sup>*"
            by (meson converse_rtranclE)
          with Some show ?thesis by (auto simp: derives_iff)
        next
          case False
          with "2.prems" show ?thesis by auto
        qed
        then obtain w' where "w' \<in> set (direct_supertypes cls @ todo)" "(w', parent) \<in> (derives h)\<^sup>*"
          by blast
        from "2.IH"(3) [OF ne Some False inv this] ne Some False
        show ?thesis by simp
      qed
    qed
  qed
qed

lemma detail_is_assignable_to_iff:
  "detail_is_assignable_to h child parent \<longleftrightarrow> (child, parent) \<in> (derives h)\<^sup>*"
proof
  assume "detail_is_assignable_to h child parent"
  then show "(child, parent) \<in> (derives h)\<^sup>*"
    using walk_sound [of h parent "{}" "[child]"] by (simp add: detail_is_assignable_to_def)
next
  assume r: "(child, parent) \<in> (derives h)\<^sup>*"
  have "closed_but h parent {} [child]" by (simp add: closed_but_def)
  from walk_complete [OF this _ r] show "detail_is_assignable_to h child parent"
    by (simp add: detail_is_assignable_to_def)
qed

text \<open>
  C3. For every target type \<open>X\<close>, every candidate and every (finite) hierarchy, the
  predicate \<open>is_assignable_to X\<close> has an answer (the walk is a total function: its
  termination is proved for every hierarchy, with diamonds, cycles, roots and
  unresolvable ancestors); it matches exactly the types that derive from \<open>X\<close> in zero
  or more steps through superclasses and interfaces, so it matches \<open>X\<close> itself and
  rejects every unrelated type; an unresolvable ancestor ends that branch of the walk
  and is no error.
\<close>

theorem is_assignable_to_reachable:
  "matches (is_assignable_to h X) t = ((t, X) \<in> (derives h)\<^sup>*)
   \<and> matches (is_assignable_to h X) X"
  by (simp add: is_assignable_to_def matcher_def matches_def detail_is_assignable_to_iff)

theorem is_assignable_to_reachable_witness:
  "matches (is_assignable_to diamond ''LA;'') ''LD;''
   \<and> (''LD;'', ''LA;'') \<in> (derives diamond)\<^sup>*
   \<and> \<not> matches (is_assignable_to diamond ''LA;'') ''LObject;''
   \<and> (''LObject;'', ''LA;'') \<notin> (derives diamond)\<^sup>*
   \<and> \<not> matches (is_assignable_to diamond ''LA;'') ''LE;''
   \<and> (''LE;'', ''LA;'') \<notin> (derives diamond)\<^sup>*"
proof -
  have "matches (is_assignable_to diamond ''LA;'') ''LD;''" by code_simp
  moreover have "\<not> matches (is_assignable_to diamond ''LA;'') ''LObject;''" by code_simp
  moreover have "\<not> matches (is_assignable_to diamond ''LA;'') ''LE;''" by code_simp
  ultimately show ?thesis
    using is_assignable_to_reachable [of diamond "''LA;''" "''LD;''", THEN conjunct1]
      is_assignable_to_reachable [of diamond "''LA;''" "''LObject;''", THEN conjunct1]
      is_assignable_to_reachable [of diamond "''LA;''" "''LE;''", THEN conjunct1]
    by (simp only: simp_thms)
qed

section \<open>Properties of the projections\<close>

text \<open>
  C4. The operations that resolve and fail closed: \<open>opcode_method\<close>,
  \<open>opcode_field\<close>, \<open>opcode_type\<close> and \<open>opcode_string\<close> on an instruction without
  the operand, \<open>as_class\<close> on a type without a class, and
  \<open>can_be_default_constructor\<close> on a reference without a definition all answer false,
  whatever the inner predicate is (it is not asked); and the projections raise no
  error on any instruction.
\<close>

theorem projections_fail_closed:
  "(\<not> has_method insn \<longrightarrow> opcode_method pm insn = Inr False)
   \<and> (\<not> has_field insn \<longrightarrow> opcode_field pf insn = Inr False)
   \<and> (\<not> has_type insn \<longrightarrow> opcode_type pt insn = Inr False)
   \<and> (\<not> has_string insn \<longrightarrow> opcode_string ps insn = Inr False)
   \<and> (type_class_lookup t = None \<longrightarrow> \<not> matches (as_class type_class_lookup pc) t)
   \<and> (as_def meth = None \<longrightarrow>
        \<not> matches (can_be_default_constructor as_def is_default_constructor) meth)
   \<and> (\<exists>b. opcode_method pm insn = Inr b) \<and> (\<exists>b. opcode_field pf insn = Inr b)
   \<and> (\<exists>b. opcode_type pt insn = Inr b) \<and> (\<exists>b. opcode_string ps insn = Inr b)"
proof -
  have m: "opcode_method pm insn =
      Inr (case method_operand insn of None \<Rightarrow> False | Some x \<Rightarrow> matches pm x)"
    by (cases "method_operand insn") (simp_all add: opcode_method_def has_method_def get_method_def)
  have f: "opcode_field pf insn =
      Inr (case field_operand insn of None \<Rightarrow> False | Some x \<Rightarrow> matches pf x)"
    by (cases "field_operand insn") (simp_all add: opcode_field_def has_field_def get_field_def)
  have t: "opcode_type pt insn =
      Inr (case type_operand insn of None \<Rightarrow> False | Some x \<Rightarrow> matches pt x)"
    by (cases "type_operand insn") (simp_all add: opcode_type_def has_type_def get_type_def)
  have s: "opcode_string ps insn =
      Inr (case string_operand insn of None \<Rightarrow> False | Some x \<Rightarrow> matches ps x)"
    by (cases "string_operand insn") (simp_all add: opcode_string_def has_string_def get_string_def)
  show ?thesis
    unfolding m f t s
    by (simp add: has_method_def has_field_def has_type_def has_string_def
        as_class_def can_be_default_constructor_def matches_def matcher_def)
qed

text \<open>
  A \<open>return-void\<close> instruction (no operand at all) against the predicate that always
  matches, a type that the lookup does not resolve, and a reference without definition.
\<close>

theorem projections_fail_closed_witness:
  "opcode_method any
     \<lparr>opcode = 14, srcs_size = 0, string_operand = None :: string option,
      type_operand = None :: string option, field_operand = None :: string option,
      method_operand = None :: string option\<rparr> = Inr False
   \<and> \<not> matches (as_class (\<lambda>t :: string. None :: nat option) any) ''I''
   \<and> \<not> matches (can_be_default_constructor (\<lambda>r :: string. None :: nat option) (\<lambda>d. True))
         ''LFoo;.<init>:()V''"
proof -
  let ?insn = "\<lparr>opcode = 14, srcs_size = 0, string_operand = None :: string option,
      type_operand = None :: string option, field_operand = None :: string option,
      method_operand = None :: string option\<rparr>"
  have "\<not> has_method ?insn"
    by (simp add: has_method_def)
  then have "opcode_method any ?insn = Inr False"
    by (rule projections_fail_closed [where insn = ?insn and pm = any, THEN conjunct1, rule_format])
  moreover have "\<not> matches (as_class (\<lambda>t :: string. None :: nat option) any) ''I''"
    by (rule projections_fail_closed
          [where type_class_lookup = "\<lambda>t :: string. None :: nat option" and pc = any and t = "''I''",
            THEN conjunct2, THEN conjunct2, THEN conjunct2, THEN conjunct2, THEN conjunct1,
            rule_format]) (rule refl)
  moreover have "\<not> matches (can_be_default_constructor (\<lambda>r :: string. None :: nat option) (\<lambda>d. True))
         ''LFoo;.<init>:()V''"
    by (rule projections_fail_closed
          [where as_def = "\<lambda>r :: string. None :: nat option" and is_default_constructor = "\<lambda>d. True"
             and meth = "''LFoo;.<init>:()V''",
            THEN conjunct2, THEN conjunct2, THEN conjunct2, THEN conjunct2, THEN conjunct2,
            THEN conjunct1, rule_format]) (rule refl)
  ultimately show ?thesis
    by simp
qed

section \<open>Properties of the reader of the statistics file\<close>

subsection \<open>Cells\<close>

lemma set_errno_frame [simp]:
  "m_method_stats (set_errno e st) = m_method_stats st"
  "cerr (set_errno e st) = cerr st"
  by (cases e; simp add: set_errno_def)+

lemma one_line_break:
  "(length rest = 0 \<or> (length rest = 1 \<and> rest ! 0 = CHR ''\<newline>''))
   \<longleftrightarrow> (rest = [] \<or> rest = ''\<newline>'')"
  by (cases rest; cases "tl rest"; auto)

lemma parse_double_eq:
  "parse_double env tok st =
     ((if parses_fully (strtod env tok) tok then Returned (result (strtod env tok))
       else Raised (''can't parse '' @ tok @ '' into a double'')),
      set_errno (sets_errno (strtod env tok)) st)"
  unfolding parse_double_def Let_def parses_fully_def one_line_break by simp

lemma parse_byte_eq:
  "parse_byte env tok st =
     ((if parses_fully (strtoul env tok) tok then Returned (ucast (result (strtoul env tok)))
       else Raised (''can't parse '' @ tok @ '' into a uint8_t'')),
      set_errno (sets_errno (strtoul env tok)) st)"
  unfolding parse_byte_def Let_def parses_fully_def one_line_break by simp

lemmas column_defs =
  INDEX_def NAME_def APPEAR100_def APPEAR_NUMBER_def AVG_CALL_def AVG_ORDER_def
  AVG_RANK100_def MIN_API_LEVEL_def

lemma below_eight: "i < 8 \<longleftrightarrow> i = 0 \<or> i = 1 \<or> i = 2 \<or> i = 3 \<or> i = 4 \<or> i = 5 \<or> i = 6 \<or> i = (7::nat)"
  by arith

lemma parse_cell_well_formed:
  assumes "i < 8" "well_formed_cell env i tok"
  shows "\<exists>st' stats'. parse_cell env tok i (st, ref, stats) =
            (Returned True, st', (if i = NAME then DexMethod_get_method env tok else ref), stats')
          \<and> m_method_stats st' = m_method_stats st \<and> cerr st' = cerr st"
  using assms unfolding below_eight
  by (elim disjE)
     (simp_all add: parse_cell_def well_formed_cell_def column_defs parse_double_eq parse_byte_eq)

lemma parse_cell_malformed:
  assumes "i < 8" "\<not> well_formed_cell env i tok"
  shows "\<exists>st'. parse_cell env tok i (st, ref, stats) =
            (Raised (''can't parse '' @ tok @ '' into a '' @ cell_kind i), st', ref, stats)
          \<and> m_method_stats st' = m_method_stats st \<and> cerr st' = cerr st"
  using assms unfolding below_eight
  by (elim disjE)
     (simp_all add: parse_cell_def well_formed_cell_def column_defs parse_double_eq parse_byte_eq
        cell_kind_def)

lemma parse_cell_too_many:
  assumes "8 \<le> i"
  shows "parse_cell env tok i (st, ref, stats) =
           (Returned False,
            st\<lparr>cerr := cerr st @ ''FAILED to parse line. Too many columns\<newline>''\<rparr>, ref, stats)"
  using assms by (simp add: parse_cell_def column_defs)

subsection \<open>Rows, the header and the loop over the lines\<close>

lemma list_all_upt: "list_all P [0..<n] \<longleftrightarrow> (\<forall>j<n. P j)"
  by (auto simp: list_all_iff)

lemma cells_well_formed:
  "i + length toks \<le> 8 \<Longrightarrow> \<forall>j<length toks. well_formed_cell env (i + j) (toks ! j) \<Longrightarrow>
   \<exists>st' stats'. parse_cells_from (parse_cell env) toks i (st, ref, stats) =
        (Returned True, st',
         (if i \<le> NAME \<and> NAME < i + length toks then DexMethod_get_method env (toks ! (NAME - i))
          else ref), stats')
      \<and> m_method_stats st' = m_method_stats st \<and> cerr st' = cerr st"
proof (induction toks arbitrary: i st ref stats)
  case Nil
  then show ?case by auto
next
  case (Cons tok toks)
  from Cons.prems have i: "i < 8" and wf: "well_formed_cell env i tok"
    by auto
  from parse_cell_well_formed [OF i wf, of st ref stats]
  obtain st1 stats1 where
    cell: "parse_cell env tok i (st, ref, stats) =
             (Returned True, st1, (if i = NAME then DexMethod_get_method env tok else ref), stats1)"
    and frame1: "m_method_stats st1 = m_method_stats st" "cerr st1 = cerr st"
    by blast
  let ?ref1 = "if i = NAME then DexMethod_get_method env tok else ref"
  from Cons.prems have fits: "Suc i + length toks \<le> 8"
    and rest: "\<forall>j<length toks. well_formed_cell env (Suc i + j) (toks ! j)"
    by auto
  from Cons.IH [OF fits rest, of st1 ?ref1 stats1]
  obtain st' stats' where
    tail: "parse_cells_from (parse_cell env) toks (Suc i) (st1, ?ref1, stats1) =
        (Returned True, st',
         (if Suc i \<le> NAME \<and> NAME < Suc i + length toks
          then DexMethod_get_method env (toks ! (NAME - Suc i)) else ?ref1), stats')"
    and frame2: "m_method_stats st' = m_method_stats st1" "cerr st' = cerr st1"
    by blast
  have ref: "(if Suc i \<le> NAME \<and> NAME < Suc i + length toks
          then DexMethod_get_method env (toks ! (NAME - Suc i)) else ?ref1)
       = (if i \<le> NAME \<and> NAME < i + length (tok # toks)
          then DexMethod_get_method env ((tok # toks) ! (NAME - i)) else ref)"
    by (cases "i = 0"; cases "i = 1") (auto simp: NAME_def)
  show ?case
    using cell tail frame1 frame2 unfolding ref by simp
qed

lemma malformed_below_eight:
  "\<not> well_formed_cell env i tok \<Longrightarrow> i < 8"
  by (auto simp: well_formed_cell_def column_defs split: if_splits)

lemma cells_malformed:
  "j < length toks \<Longrightarrow> \<forall>k<j. well_formed_cell env (i + k) (toks ! k) \<Longrightarrow>
   \<not> well_formed_cell env (i + j) (toks ! j) \<Longrightarrow>
   \<exists>st' ref' stats'.
      parse_cells_from (parse_cell env) toks i (st, ref, stats) =
        (Raised (''can't parse '' @ toks ! j @ '' into a '' @ cell_kind (i + j)), st', ref', stats')
      \<and> m_method_stats st' = m_method_stats st \<and> cerr st' = cerr st"
proof (induction toks arbitrary: i j st ref stats)
  case Nil
  then show ?case by simp
next
  case (Cons tok toks)
  from Cons.prems(3) have below: "i + j < 8"
    by (rule malformed_below_eight)
  show ?case
  proof (cases j)
    case 0
    with Cons.prems(3) have bad: "\<not> well_formed_cell env i tok"
      by simp
    from below have i: "i < 8"
      by simp
    from parse_cell_malformed [OF i bad, of st ref stats] 0
    show ?thesis by auto
  next
    case (Suc j')
    from below Suc have i: "i < 8"
      by simp
    from Cons.prems(2) Suc have "well_formed_cell env (i + 0) ((tok # toks) ! 0)"
      by blast
    then have good: "well_formed_cell env i tok"
      by simp
    from parse_cell_well_formed [OF i good, of st ref stats]
    obtain st1 ref1 stats1 where
      cell: "parse_cell env tok i (st, ref, stats) = (Returned True, st1, ref1, stats1)"
      and frame1: "m_method_stats st1 = m_method_stats st" "cerr st1 = cerr st"
      by blast
    from Cons.prems(1) Suc have len: "j' < length toks"
      by simp
    have before: "\<forall>k<j'. well_formed_cell env (Suc i + k) (toks ! k)"
    proof (intro allI impI)
      fix k assume "k < j'"
      with Suc have "Suc k < j" by simp
      with Cons.prems(2) have "well_formed_cell env (i + Suc k) ((tok # toks) ! Suc k)"
        by blast
      then show "well_formed_cell env (Suc i + k) (toks ! k)"
        by simp
    qed
    from Cons.prems(3) Suc have bad: "\<not> well_formed_cell env (Suc i + j') (toks ! j')"
      by simp
    from Cons.IH [OF len before bad, of st1 ref1 stats1]
    obtain st' ref' stats' where
      "parse_cells_from (parse_cell env) toks (Suc i) (st1, ref1, stats1) =
        (Raised (''can't parse '' @ toks ! j' @ '' into a '' @ cell_kind (Suc i + j')),
         st', ref', stats')"
      "m_method_stats st' = m_method_stats st1" "cerr st' = cerr st1"
      by blast
    with cell frame1 Suc show ?thesis
      by simp
  qed
qed

lemma header_cells:
  "\<exists>st'. parse_cells_from header_cell toks i (st :: ('r, 'd) profiles_state) =
            (Returned (header_matches_from i toks), st')
         \<and> m_method_stats st' = m_method_stats st \<and> errno st' = errno st
         \<and> (header_matches_from i toks \<longrightarrow> st' = st)"
proof (induction toks arbitrary: i st)
  case Nil
  then show ?case by (simp add: header_matches_from_def)
next
  case (Cons tok toks)
  have split: "header_matches_from i (tok # toks) \<longleftrightarrow>
      take MAX_CELL_LENGTH tok = take MAX_CELL_LENGTH (expected_header i)
      \<and> header_matches_from (Suc i) toks"
    by (simp only: header_matches_from_def list_all_upt length_Cons All_less_Suc2
          nth_Cons_0 nth_Cons_Suc add_0_right add_Suc_right add_Suc)
  show ?case
  proof (cases "take MAX_CELL_LENGTH tok = take MAX_CELL_LENGTH (expected_header i)")
    case True
    then have "header_cell tok i st = (Returned True, st)"
      by (simp add: header_cell_def check_cell_def)
    with Cons.IH [of "Suc i" st] True show ?thesis
      unfolding split by simp
  next
    case False
    then show ?thesis
      unfolding split by (simp add: header_cell_def check_cell_def)
  qed
qed

lemma parse_header_eq:
  "\<exists>st'. parse_header line (st :: ('r, 'd) profiles_state) =
            (Returned (header_matches (split_cells line)), st')
         \<and> m_method_stats st' = m_method_stats st \<and> errno st' = errno st
         \<and> (header_matches (split_cells line) \<longrightarrow> st' = st)"
  using header_cells [of "split_cells line" 0 st]
  by (simp add: parse_header_def parse_cells_def header_matches_def)

lemma parse_line_well_formed:
  assumes "well_formed_row env (split_cells line)"
  shows "\<exists>st'. m_method_stats st' = m_method_stats st \<and> cerr st' = cerr st \<and>
     (\<exists>stats'. parse_line env line False st =
        (Returned True,
         (case (if 1 < length (split_cells line)
                then DexMethod_get_method env (split_cells line ! 1) else None) of
            None \<Rightarrow> st'
          | Some r \<Rightarrow> st'\<lparr>m_method_stats := emplace (m_method_stats st') r stats'\<rparr>)))"
proof -
  from assms have fits: "0 + length (split_cells line) \<le> 8"
    and wf: "\<forall>j<length (split_cells line). well_formed_cell env (0 + j) (split_cells line ! j)"
    by (simp_all add: well_formed_row_def list_all_upt)
  from cells_well_formed [OF fits wf, of st None "initial_stats env"]
  obtain st' stats' where
    row: "parse_cells_from (parse_cell env) (split_cells line) 0 (st, None, initial_stats env) =
        (Returned True, st',
         (if 1 < length (split_cells line)
          then DexMethod_get_method env (split_cells line ! 1) else None), stats')"
    and frame: "m_method_stats st' = m_method_stats st" "cerr st' = cerr st"
    by (auto simp: NAME_def)
  show ?thesis
    using row frame
    by (intro exI [of _ st'] conjI exI [of _ stats'])
       (simp_all add: parse_line_def parse_cells_def split: option.splits)
qed

lemma parse_line_malformed:
  assumes "j < length (split_cells line)"
    and "\<forall>k<j. well_formed_cell env k (split_cells line ! k)"
    and "\<not> well_formed_cell env j (split_cells line ! j)"
  shows "\<exists>st'.
      parse_line env line False st =
        (Raised (''can't parse '' @ split_cells line ! j @ '' into a '' @ cell_kind j), st')
      \<and> m_method_stats st' = m_method_stats st \<and> cerr st' = cerr st"
proof -
  from assms have "\<forall>k<j. well_formed_cell env (0 + k) (split_cells line ! k)"
    "\<not> well_formed_cell env (0 + j) (split_cells line ! j)"
    by simp_all
  from cells_malformed [OF assms(1) this, of st None "initial_stats env"]
  show ?thesis
    by (auto simp: parse_line_def parse_cells_def)
qed

lemma read_lines_append:
  "pre \<noteq> [] \<Longrightarrow>
   read_lines env (pre @ rest) first st =
     (case read_lines env pre first st of
        (Returned True, st1) \<Rightarrow> read_lines env rest False st1
      | (Returned False, st1) \<Rightarrow> (Returned False, st1)
      | (Raised msg, st1) \<Rightarrow> (Raised msg, st1))"
proof (induction pre arbitrary: first st)
  case Nil
  then show ?case by simp
next
  case (Cons line pre)
  obtain out st1 where line: "parse_line env line first st = (out, st1)"
    by (cases "parse_line env line first st")
  show ?case
  proof (cases "pre = []")
    case True
    with line show ?thesis
      by (cases out) (auto split: bool.splits)
  next
    case False
    from Cons.IH [OF False, of False st1] line show ?thesis
      by (cases out) (auto split: bool.splits)
  qed
qed

subsection \<open>The file of the example\<close>

lemma example_row_cells:
  "split_cells (example_row @ ''\<newline>'') =
     [''0'', ''LfooV;.bar:()V'', ''12.5'', ''100'', ''3.2'', ''5'', ''50.0'', ''21\<newline>'']"
  by code_simp

lemma example_header_comma_cells:
  "header_matches (split_cells (example_header @ '',\<newline>''))"
  by code_simp

lemma example_lines:
  "map c_str (getlines (example_header @ '',\<newline>'' @ example_row @ ''\<newline>''))
     = [example_header @ '',\<newline>'', example_row @ ''\<newline>'']"
  by code_simp

lemma example_row_parsed:
  assumes "DexMethod_get_method env ''LfooV;.bar:()V'' = Some r"
    and "strtod env ''12.5'' = \<lparr>result = a, consumed = 4, sets_errno = None\<rparr>"
    and "strtod env ''3.2'' = \<lparr>result = c, consumed = 3, sets_errno = None\<rparr>"
    and "strtod env ''50.0'' = \<lparr>result = p, consumed = 4, sets_errno = None\<rparr>"
    and "strtoul env ''21\<newline>'' = \<lparr>result = 21, consumed = 2, sets_errno = None\<rparr>"
  shows "parse_line env (example_row @ ''\<newline>'') False st =
     (Returned True,
      st\<lparr>m_method_stats := emplace (m_method_stats st) r
           \<lparr>appear_percent = a, call_count = c, order_percent = p, min_api_level = 21\<rparr>\<rparr>)"
proof -
  have blank: "initial_stats env\<lparr>appear_percent := a, call_count := c, order_percent := p,
      min_api_level := 21\<rparr> = \<lparr>appear_percent = a, call_count = c, order_percent = p, min_api_level = 21\<rparr>"
    by (cases "initial_stats env") simp
  show ?thesis
    unfolding parse_line_def parse_cells_def example_row_cells
    using assms
    by (simp add: parse_cell_def column_defs parse_double_eq parse_byte_eq parses_fully_def
        set_errno_def blank)
qed

subsection \<open>Failures\<close>

lemma header_cells_report:
  "j < length toks \<Longrightarrow>
   \<forall>k<j. take MAX_CELL_LENGTH (toks ! k) = take MAX_CELL_LENGTH (expected_header (i + k)) \<Longrightarrow>
   take MAX_CELL_LENGTH (toks ! j) \<noteq> take MAX_CELL_LENGTH (expected_header (i + j)) \<Longrightarrow>
   parse_cells_from header_cell toks i (st :: ('r, 'd) profiles_state) =
     (Returned False,
      st\<lparr>cerr := cerr st @ ''Unexpected Header (column '' @ show_nat (i + j) @ ''): ''
                 @ toks ! j @ '' != '' @ expected_header (i + j) @ ''\<newline>''\<rparr>)"
proof (induction toks arbitrary: i j)
  case Nil
  then show ?case by simp
next
  case (Cons tok toks)
  show ?case
  proof (cases j)
    case 0
    with Cons.prems(3) show ?thesis
      by (simp add: header_cell_def check_cell_def)
  next
    case (Suc j')
    from Cons.prems(2) Suc
    have "take MAX_CELL_LENGTH ((tok # toks) ! 0) = take MAX_CELL_LENGTH (expected_header (i + 0))"
      by blast
    then have cell: "header_cell tok i st = (Returned True, st)"
      by (simp add: header_cell_def check_cell_def)
    from Cons.prems(1) Suc have len: "j' < length toks"
      by simp
    have before: "\<forall>k<j'. take MAX_CELL_LENGTH (toks ! k)
        = take MAX_CELL_LENGTH (expected_header (Suc i + k))"
    proof (intro allI impI)
      fix k assume "k < j'"
      with Suc have "Suc k < j" by simp
      with Cons.prems(2)
      have "take MAX_CELL_LENGTH ((tok # toks) ! Suc k)
          = take MAX_CELL_LENGTH (expected_header (i + Suc k))"
        by blast
      then show "take MAX_CELL_LENGTH (toks ! k) = take MAX_CELL_LENGTH (expected_header (Suc i + k))"
        by simp
    qed
    from Cons.prems(3) Suc
    have bad: "take MAX_CELL_LENGTH (toks ! j') \<noteq> take MAX_CELL_LENGTH (expected_header (Suc i + j'))"
      by simp
    from Cons.IH [OF len before bad] cell Suc show ?thesis
      by simp
  qed
qed

lemma header_rejected:
  assumes "csv_filename \<noteq> []" "fopen env csv_filename = Inr contents"
    and "map c_str (getlines contents) = hdr # rows"
    and "j < length (split_cells hdr)"
    and "\<forall>k<j. take MAX_CELL_LENGTH (split_cells hdr ! k) = take MAX_CELL_LENGTH (expected_header k)"
    and "take MAX_CELL_LENGTH (split_cells hdr ! j) \<noteq> take MAX_CELL_LENGTH (expected_header j)"
  shows "parse_stats_file env csv_filename st =
     (Returned False,
      st\<lparr>cerr := cerr st @ ''Unexpected Header (column '' @ show_nat j @ ''): ''
                 @ split_cells hdr ! j @ '' != '' @ expected_header j @ ''\<newline>''\<rparr>)"
proof -
  from assms(5,6)
  have "\<forall>k<j. take MAX_CELL_LENGTH (split_cells hdr ! k)
          = take MAX_CELL_LENGTH (expected_header (0 + k))"
    "take MAX_CELL_LENGTH (split_cells hdr ! j) \<noteq> take MAX_CELL_LENGTH (expected_header (0 + j))"
    by simp_all
  from header_cells_report [OF assms(4) this, of st]
  show ?thesis
    using assms(1-3)
    by (simp add: parse_stats_file_def parse_line_def parse_header_def parse_cells_def)
qed

lemma malformed_row_aborts:
  assumes "csv_filename \<noteq> []" "fopen env csv_filename = Inr contents"
    and "map c_str (getlines contents) = hdr # good @ bad # later"
    and "read_lines env (hdr # good) True st = (Returned True, st1)"
    and "j < length (split_cells bad)"
    and "\<forall>k<j. well_formed_cell env k (split_cells bad ! k)"
    and "\<not> well_formed_cell env j (split_cells bad ! j)"
  shows "\<exists>st2.
     parse_stats_file env csv_filename st =
       (Raised (''can't parse '' @ split_cells bad ! j @ '' into a '' @ cell_kind j), st2)
     \<and> m_method_stats st2 = m_method_stats st1 \<and> cerr st2 = cerr st1"
proof -
  from parse_line_malformed [OF assms(5-7), of st1]
  obtain st2 where
    bad: "parse_line env bad False st1 =
        (Raised (''can't parse '' @ split_cells bad ! j @ '' into a '' @ cell_kind j), st2)"
    and frame: "m_method_stats st2 = m_method_stats st1" "cerr st2 = cerr st1"
    by blast
  have "read_lines env ((hdr # good) @ bad # later) True st =
      (Raised (''can't parse '' @ split_cells bad ! j @ '' into a '' @ cell_kind j), st2)"
    using assms(4) bad by (subst read_lines_append) simp_all
  then have "parse_stats_file env csv_filename st =
      (Raised (''can't parse '' @ split_cells bad ! j @ '' into a '' @ cell_kind j), st2)"
    using assms(1-3) by (simp add: parse_stats_file_def)
  with frame show ?thesis by blast
qed

text \<open>
  What follows a NUL byte in a line is not read: a header line whose first cell is
  \<open>index\<close> followed by a NUL byte is the one-cell header \<open>index\<close>, whatever comes
  behind the NUL byte, and is accepted.
\<close>

lemma text_behind_nul_is_not_read:
  "fst (parse_stats_file (example_env (''index'' @ [CHR 0x00] @ '',bogus\<newline>'')) ''stats.csv'' fresh)
     = Returned True"
  by code_simp

section \<open>The claims about the reader\<close>

text \<open>
  The claim as the specification states it fails on a file whose second data row has
  the cell \<open>abc\<close> for appear100: the call ends with the message
  \<open>can't parse abc into a double\<close>, which names neither the file nor an error of
  the operating system, nothing is on \<open>std::cerr\<close>, and the entry of the first row
  is in the statistics.
\<close>

theorem hard_failure_keeps_earlier_rows:
  "fst (parse_stats_file (example_env csv_with_bad_row) ''stats.csv'' fresh)
     = Raised ''can't parse abc into a double''
   \<and> m_method_stats (snd (parse_stats_file (example_env csv_with_bad_row) ''stats.csv'' fresh)) 1
     = Some \<lparr>appear_percent = 12.5, call_count = 3.2, order_percent = 50.0, min_api_level = 21\<rparr>
   \<and> cerr (snd (parse_stats_file (example_env csv_with_bad_row) ''stats.csv'' fresh)) = []"
  by code_simp

text \<open>
  C6, as the code has it. A file that cannot be opened makes \<open>parse_stats_file\<close>
  return false, with the path and the description of the error number on
  \<open>std::cerr\<close> and the statistics untouched. A header whose first cell that is not
  the expected one is cell \<open>j\<close> makes it return false before any row is read, with
  that column \<open>j\<close>, that cell and the text expected there on \<open>std::cerr\<close> and
  nothing else changed. A data row whose first malformed numeric cell is cell \<open>j\<close>
  ends the call with a failed assertion; the text the code formats for it names that
  cell and the type of column \<open>j\<close> (\<open>uint8_t\<close> for min_api_level, \<open>double\<close> for
  the others), and neither the path of the file nor an error of the operating system,
  which are not among its arguments. Nothing is written to \<open>std::cerr\<close>, and the row
  and the rows after it add nothing to the statistics, which keep the entries of the
  rows before it (\<open>st1\<close> is the state those rows have left). The lines are the lines
  of the file as \<open>parse_line\<close> sees them, each cut at its first NUL byte.
\<close>

theorem hard_failures:
  "(csv_filename \<noteq> [] \<and> fopen env csv_filename = Inl e \<longrightarrow>
      parse_stats_file env csv_filename st =
        (Returned False,
         st\<lparr>errno := e,
            cerr := cerr st @ ''FAILED to open '' @ csv_filename @ '': '' @ strerror env e
                    @ ''\<newline>''\<rparr>))
   \<and> (csv_filename \<noteq> [] \<and> fopen env csv_filename = Inr contents
        \<and> map c_str (getlines contents) = hdr # rows
        \<and> i < length (split_cells hdr)
        \<and> (\<forall>k<i. take MAX_CELL_LENGTH (split_cells hdr ! k)
                    = take MAX_CELL_LENGTH (expected_header k))
        \<and> take MAX_CELL_LENGTH (split_cells hdr ! i) \<noteq> take MAX_CELL_LENGTH (expected_header i)
      \<longrightarrow>
      parse_stats_file env csv_filename st =
        (Returned False,
         st\<lparr>cerr := cerr st @ ''Unexpected Header (column '' @ show_nat i @ ''): ''
                    @ split_cells hdr ! i @ '' != '' @ expected_header i @ ''\<newline>''\<rparr>))
   \<and> (csv_filename \<noteq> [] \<and> fopen env csv_filename = Inr contents
        \<and> map c_str (getlines contents) = hdr # good @ bad # later
        \<and> read_lines env (hdr # good) True st = (Returned True, st1)
        \<and> j < length (split_cells bad)
        \<and> (\<forall>k<j. well_formed_cell env k (split_cells bad ! k))
        \<and> \<not> well_formed_cell env j (split_cells bad ! j) \<longrightarrow>
      (\<exists>st2.
         parse_stats_file env csv_filename st =
           (Raised (''can't parse '' @ split_cells bad ! j @ '' into a ''
                    @ (if j = MIN_API_LEVEL then ''uint8_t'' else ''double'')), st2)
         \<and> m_method_stats st2 = m_method_stats st1 \<and> cerr st2 = cerr st1))"
proof (intro conjI impI)
  assume "csv_filename \<noteq> [] \<and> fopen env csv_filename = Inl e"
  then show "parse_stats_file env csv_filename st =
        (Returned False,
         st\<lparr>errno := e,
            cerr := cerr st @ ''FAILED to open '' @ csv_filename @ '': '' @ strerror env e
                    @ ''\<newline>''\<rparr>)"
    by (simp add: parse_stats_file_def)
next
  assume "csv_filename \<noteq> [] \<and> fopen env csv_filename = Inr contents
        \<and> map c_str (getlines contents) = hdr # rows
        \<and> i < length (split_cells hdr)
        \<and> (\<forall>k<i. take MAX_CELL_LENGTH (split_cells hdr ! k)
                    = take MAX_CELL_LENGTH (expected_header k))
        \<and> take MAX_CELL_LENGTH (split_cells hdr ! i) \<noteq> take MAX_CELL_LENGTH (expected_header i)"
  then have "csv_filename \<noteq> []" "fopen env csv_filename = Inr contents"
    "map c_str (getlines contents) = hdr # rows"
    "i < length (split_cells hdr)"
    "\<forall>k<i. take MAX_CELL_LENGTH (split_cells hdr ! k) = take MAX_CELL_LENGTH (expected_header k)"
    "take MAX_CELL_LENGTH (split_cells hdr ! i) \<noteq> take MAX_CELL_LENGTH (expected_header i)"
    by simp_all
  then show "parse_stats_file env csv_filename st =
        (Returned False,
         st\<lparr>cerr := cerr st @ ''Unexpected Header (column '' @ show_nat i @ ''): ''
                    @ split_cells hdr ! i @ '' != '' @ expected_header i @ ''\<newline>''\<rparr>)"
    by (rule header_rejected)
next
  assume "csv_filename \<noteq> [] \<and> fopen env csv_filename = Inr contents
        \<and> map c_str (getlines contents) = hdr # good @ bad # later
        \<and> read_lines env (hdr # good) True st = (Returned True, st1)
        \<and> j < length (split_cells bad)
        \<and> (\<forall>k<j. well_formed_cell env k (split_cells bad ! k))
        \<and> \<not> well_formed_cell env j (split_cells bad ! j)"
  then have "csv_filename \<noteq> []" "fopen env csv_filename = Inr contents"
    "map c_str (getlines contents) = hdr # good @ bad # later"
    "read_lines env (hdr # good) True st = (Returned True, st1)"
    "j < length (split_cells bad)"
    "\<forall>k<j. well_formed_cell env k (split_cells bad ! k)"
    "\<not> well_formed_cell env j (split_cells bad ! j)"
    by simp_all
  from malformed_row_aborts [OF this]
  show "\<exists>st2.
         parse_stats_file env csv_filename st =
           (Raised (''can't parse '' @ split_cells bad ! j @ '' into a ''
                    @ (if j = MIN_API_LEVEL then ''uint8_t'' else ''double'')), st2)
         \<and> m_method_stats st2 = m_method_stats st1 \<and> cerr st2 = cerr st1"
    unfolding cell_kind_def .
qed

text \<open>
  Three runs: a file that is not there; the header of the specification's example,
  whose last cell carries the line break, so that column 7 is the first unexpected
  one; and the file whose second row has \<open>abc\<close> in column 2 and \<open>21x\<close> in column
  7: the first of the two is reported, and the entry of the first row stays.
\<close>

theorem hard_failures_witness:
  "parse_stats_file (example_env []) ''missing.csv'' fresh =
     (Returned False,
      fresh\<lparr>errno := 2,
            cerr := ''FAILED to open missing.csv: No such file or directory\<newline>''\<rparr>)
   \<and> parse_stats_file (example_env (example_header @ ''\<newline>'')) ''stats.csv'' fresh =
       (Returned False,
        fresh\<lparr>cerr := ''Unexpected Header (column 7): min_api_level\<newline> != min_api_level\<newline>''\<rparr>)
   \<and> fst (parse_stats_file (example_env csv_with_two_bad_cells) ''stats.csv'' fresh)
       = Raised ''can't parse abc into a double''
   \<and> m_method_stats (snd (parse_stats_file (example_env csv_with_two_bad_cells) ''stats.csv'' fresh))
       = m_method_stats
           (snd (read_lines (example_env csv_with_two_bad_cells)
                   [example_header @ '',\<newline>'', example_row @ ''\<newline>''] True fresh))"
proof -
  have opened: "''missing.csv'' \<noteq> [] \<and> fopen (example_env []) ''missing.csv'' = Inl 2"
    by (simp add: example_env_def)
  have a: "parse_stats_file (example_env []) ''missing.csv'' fresh =
     (Returned False,
      fresh\<lparr>errno := 2,
            cerr := ''FAILED to open missing.csv: No such file or directory\<newline>''\<rparr>)"
    using hard_failures [where env = "example_env []" and csv_filename = "''missing.csv''"
        and e = 2 and st = fresh, THEN conjunct1, rule_format, OF opened]
    by (simp add: example_env_def fresh_def)
  let ?env = "example_env (example_header @ ''\<newline>'')"
  let ?hdr = "example_header @ ''\<newline>''"
  have before: "\<forall>k<7. take MAX_CELL_LENGTH (split_cells ?hdr ! k)
      = take MAX_CELL_LENGTH (expected_header k)"
  proof -
    have "list_all (\<lambda>k. take MAX_CELL_LENGTH (split_cells ?hdr ! k)
        = take MAX_CELL_LENGTH (expected_header k)) [0..<7]"
      by code_simp
    then show ?thesis
      by (simp only: list_all_upt)
  qed
  have hdr: "''stats.csv'' \<noteq> [] \<and> fopen ?env ''stats.csv'' = Inr ?hdr
      \<and> map c_str (getlines ?hdr) = ?hdr # []
      \<and> 7 < length (split_cells ?hdr)
      \<and> (\<forall>k<7. take MAX_CELL_LENGTH (split_cells ?hdr ! k)
                  = take MAX_CELL_LENGTH (expected_header k))
      \<and> take MAX_CELL_LENGTH (split_cells ?hdr ! 7) \<noteq> take MAX_CELL_LENGTH (expected_header 7)"
  proof (intro conjI)
    show "\<forall>k<7. take MAX_CELL_LENGTH (split_cells ?hdr ! k)
        = take MAX_CELL_LENGTH (expected_header k)"
      by (rule before)
  qed code_simp+
  have seven: "show_nat 7 = ''7''" "split_cells ?hdr ! 7 = ''min_api_level\<newline>''"
    "expected_header 7 = ''min_api_level''"
    by code_simp+
  have b: "parse_stats_file ?env ''stats.csv'' fresh =
       (Returned False,
        fresh\<lparr>cerr := ''Unexpected Header (column 7): min_api_level\<newline> != min_api_level\<newline>''\<rparr>)"
    using hard_failures [where env = ?env and csv_filename = "''stats.csv''" and st = fresh
        and i = 7, THEN conjunct2, THEN conjunct1, rule_format, OF hdr]
    unfolding seven by (simp add: fresh_def)
  let ?bad = "example_env csv_with_two_bad_cells"
  let ?good = "[example_row @ ''\<newline>'']"
  let ?row = "''1,LfooV;.baz:()V,abc,100,3.2,5,50.0,21x\<newline>''"
  obtain st1 where st1: "read_lines ?bad ((example_header @ '',\<newline>'') # ?good) True fresh
      = (Returned True, st1)"
  proof -
    have "fst (read_lines ?bad ((example_header @ '',\<newline>'') # ?good) True fresh) = Returned True"
      by code_simp
    then show ?thesis
      using that by (cases "read_lines ?bad ((example_header @ '',\<newline>'') # ?good) True fresh") simp
  qed
  have first: "\<forall>k<2. well_formed_cell ?bad k (split_cells ?row ! k)"
    by (simp add: well_formed_cell_def column_defs)
  have row: "''stats.csv'' \<noteq> [] \<and> fopen ?bad ''stats.csv'' = Inr csv_with_two_bad_cells
      \<and> map c_str (getlines csv_with_two_bad_cells) = (example_header @ '',\<newline>'') # ?good
           @ ?row # [''2,LfooV;.qux:()V,1.0,100,3.2,5,50.0,21\<newline>'']
      \<and> read_lines ?bad ((example_header @ '',\<newline>'') # ?good) True fresh = (Returned True, st1)
      \<and> 2 < length (split_cells ?row)
      \<and> (\<forall>k<2. well_formed_cell ?bad k (split_cells ?row ! k))
      \<and> \<not> well_formed_cell ?bad 2 (split_cells ?row ! 2)"
  proof (intro conjI)
    show "read_lines ?bad ((example_header @ '',\<newline>'') # ?good) True fresh = (Returned True, st1)"
      by (rule st1)
    show "\<forall>k<2. well_formed_cell ?bad k (split_cells ?row ! k)"
      by (rule first)
  qed code_simp+
  have cell: "split_cells ?row ! 2 = ''abc''"
    by code_simp
  from hard_failures [where env = ?bad and csv_filename = "''stats.csv''" and st = fresh
        and j = 2, THEN conjunct2, THEN conjunct2, rule_format, OF row]
  have c: "fst (parse_stats_file ?bad ''stats.csv'' fresh) = Raised ''can't parse abc into a double''
      \<and> m_method_stats (snd (parse_stats_file ?bad ''stats.csv'' fresh)) = m_method_stats st1"
    unfolding cell by (auto simp: column_defs)
  show ?thesis
    using a b c st1 by simp
qed

text \<open>
  C7. A data row that is well-formed but for its name, which does not resolve to a
  method reference, is dropped silently: \<open>parse_line\<close> returns true, no entry is
  added to the statistics, nothing is written to \<open>std::cerr\<close> and no assertion fails;
  the loop goes on, and the lines after it are processed as they would have been
  without it.
\<close>

theorem unresolved_row_is_dropped:
  assumes "well_formed_row env (split_cells line)"
    and "1 < length (split_cells line)"
    and "DexMethod_get_method env (split_cells line ! 1) = None"
  shows "\<exists>st'. parse_line env line False st = (Returned True, st')
     \<and> m_method_stats st' = m_method_stats st \<and> cerr st' = cerr st
     \<and> read_lines env (line # later) False st = read_lines env later False st'"
proof -
  from parse_line_well_formed [OF assms(1), of st] assms(2,3)
  obtain st' where "parse_line env line False st = (Returned True, st')"
    "m_method_stats st' = m_method_stats st" "cerr st' = cerr st"
    by auto
  then show ?thesis by simp
qed

theorem unresolved_row_is_dropped_witness:
  "fst (parse_line (example_env []) ''0,LfooV;.gone:()V,1.5,7,2.0,3,4.5,19\<newline>'' False fresh)
     = Returned True
   \<and> m_method_stats
        (snd (parse_line (example_env []) ''0,LfooV;.gone:()V,1.5,7,2.0,3,4.5,19\<newline>'' False fresh))
     = Map.empty
   \<and> fst (parse_stats_file (example_env csv_with_unresolved_row) ''stats.csv'' fresh)
     = Returned True
   \<and> m_method_stats
        (snd (parse_stats_file (example_env csv_with_unresolved_row) ''stats.csv'' fresh)) 1
     = Some \<lparr>appear_percent = 12.5, call_count = 3.2, order_percent = 50.0, min_api_level = 21\<rparr>"
proof -
  let ?line = "''0,LfooV;.gone:()V,1.5,7,2.0,3,4.5,19\<newline>''"
  have wf: "well_formed_row (example_env []) (split_cells ?line)"
    by code_simp
  have len: "1 < length (split_cells ?line)"
    by code_simp
  have gone: "DexMethod_get_method (example_env []) (split_cells ?line ! 1) = None"
    by code_simp
  have later: "fst (parse_stats_file (example_env csv_with_unresolved_row) ''stats.csv'' fresh)
     = Returned True
   \<and> m_method_stats
        (snd (parse_stats_file (example_env csv_with_unresolved_row) ''stats.csv'' fresh)) 1
     = Some \<lparr>appear_percent = 12.5, call_count = 3.2, order_percent = 50.0, min_api_level = 21\<rparr>"
    by code_simp
  from unresolved_row_is_dropped [OF wf len gone, of fresh "[]"] later
  show ?thesis
    by (auto simp: fresh_def)
qed

text \<open>
  The file exactly as the specification writes it, the header line ending with
  \<open>min_api_level\<close> and a line break, is rejected at column 7: the last cell of the
  header carries the line break and is not the expected text. No entry is recorded.
\<close>

theorem example_file_header_rejected:
  "fst (parse_stats_file (example_env (example_header @ ''\<newline>'' @ example_row @ ''\<newline>''))
          ''stats.csv'' fresh) = Returned False
   \<and> m_method_stats
        (snd (parse_stats_file (example_env (example_header @ ''\<newline>'' @ example_row @ ''\<newline>''))
                ''stats.csv'' fresh)) = Map.empty
   \<and> cerr (snd (parse_stats_file (example_env (example_header @ ''\<newline>'' @ example_row @ ''\<newline>''))
                ''stats.csv'' fresh))
       = ''Unexpected Header (column 7): min_api_level\<newline> != min_api_level\<newline>''"
proof -
  let ?contents = "example_header @ ''\<newline>'' @ example_row @ ''\<newline>''"
  let ?hdr = "example_header @ ''\<newline>''"
  have 1: "''stats.csv'' \<noteq> []" by simp
  have 2: "fopen (example_env ?contents) ''stats.csv'' = Inr ?contents"
    by (simp add: example_env_def)
  have 3: "map c_str (getlines ?contents) = ?hdr # [example_row @ ''\<newline>'']"
    by code_simp
  have 4: "7 < length (split_cells ?hdr)"
    by code_simp
  have "list_all (\<lambda>k. take MAX_CELL_LENGTH (split_cells ?hdr ! k)
      = take MAX_CELL_LENGTH (expected_header k)) [0..<7]"
    by code_simp
  then have 5: "\<forall>k<7. take MAX_CELL_LENGTH (split_cells ?hdr ! k)
      = take MAX_CELL_LENGTH (expected_header k)"
    by (simp only: list_all_upt)
  have 6: "take MAX_CELL_LENGTH (split_cells ?hdr ! 7) \<noteq> take MAX_CELL_LENGTH (expected_header 7)"
    by code_simp
  have seven: "show_nat 7 = ''7''" "split_cells ?hdr ! 7 = ''min_api_level\<newline>''"
    "expected_header 7 = ''min_api_level''"
    by code_simp+
  from header_rejected [OF 1 2 3 4 5 6, of fresh]
  show ?thesis
    unfolding seven by (simp add: fresh_def)
qed

text \<open>
  C8, as the code has it. The header line must end with a comma before its line
  break, so that the line break is a cell of its own (the ninth, which the header
  check expects to be a line break). For the file made of that header line and the
  row \<open>0,LfooV;.bar:()V,12.5,100,3.2,5,50.0,21\<close>, with the name resolving to \<open>r\<close>
  and the C library converting the cells of columns 3, 5, 7 and 8 to \<open>a\<close>, \<open>c\<close>,
  \<open>p\<close> and 21, a reader that starts without statistics ends with exactly one entry,
  for \<open>r\<close>: appear_percent \<open>a\<close>, call_count \<open>c\<close>, order_percent \<open>p\<close>,
  min_api_level 21. (The call returns true when \<open>errno\<close> was 0 on entry.)
\<close>

theorem example_file_one_entry:
  assumes "csv_filename \<noteq> []"
    and "fopen env csv_filename = Inr (example_header @ '',\<newline>'' @ example_row @ ''\<newline>'')"
    and "DexMethod_get_method env ''LfooV;.bar:()V'' = Some r"
    and "strtod env ''12.5'' = \<lparr>result = a, consumed = 4, sets_errno = None\<rparr>"
    and "strtod env ''3.2'' = \<lparr>result = c, consumed = 3, sets_errno = None\<rparr>"
    and "strtod env ''50.0'' = \<lparr>result = p, consumed = 4, sets_errno = None\<rparr>"
    and "strtoul env ''21\<newline>'' = \<lparr>result = 21, consumed = 2, sets_errno = None\<rparr>"
    and "m_method_stats st = Map.empty"
  shows "\<exists>st'. parse_stats_file env csv_filename st = (Returned (errno st = 0), st')
     \<and> m_method_stats st' =
         [r \<mapsto> \<lparr>appear_percent = a, call_count = c, order_percent = p, min_api_level = 21\<rparr>]"
proof -
  from parse_header_eq [of "example_header @ '',\<newline>''" st] example_header_comma_cells
  have header: "parse_header (example_header @ '',\<newline>'') st = (Returned True, st)"
    by auto
  have lines: "read_lines env (map c_str (getlines (example_header @ '',\<newline>'' @ example_row @ ''\<newline>''))) True st
      = (Returned True,
         st\<lparr>m_method_stats := emplace (m_method_stats st) r
           \<lparr>appear_percent = a, call_count = c, order_percent = p, min_api_level = 21\<rparr>\<rparr>)"
    unfolding example_lines
    by (simp add: parse_line_def [of env _ True] header example_row_parsed [OF assms(3-7)])
  show ?thesis
    using assms(1,2,8) lines
    by (cases "errno st = 0") (simp_all add: parse_stats_file_def emplace_def)
qed

theorem example_file_one_entry_witness:
  "fst (parse_stats_file (example_env (example_header @ '',\<newline>'' @ example_row @ ''\<newline>''))
          ''stats.csv'' fresh) = Returned True
   \<and> m_method_stats
        (snd (parse_stats_file (example_env (example_header @ '',\<newline>'' @ example_row @ ''\<newline>''))
                ''stats.csv'' fresh))
       = [1 \<mapsto> \<lparr>appear_percent = 12.5, call_count = 3.2, order_percent = 50.0,
                  min_api_level = 21\<rparr>]"
proof -
  let ?env = "example_env (example_header @ '',\<newline>'' @ example_row @ ''\<newline>'')"
  have 1: "''stats.csv'' \<noteq> []" by simp
  have 2: "fopen ?env ''stats.csv'' = Inr (example_header @ '',\<newline>'' @ example_row @ ''\<newline>'')"
    by (simp add: example_env_def)
  have 3: "DexMethod_get_method ?env ''LfooV;.bar:()V'' = Some 1"
    by (simp add: example_env_def)
  have 4: "strtod ?env ''12.5'' = \<lparr>result = 12.5, consumed = 4, sets_errno = None\<rparr>"
    by code_simp
  have 5: "strtod ?env ''3.2'' = \<lparr>result = 3.2, consumed = 3, sets_errno = None\<rparr>"
    by code_simp
  have 6: "strtod ?env ''50.0'' = \<lparr>result = 50.0, consumed = 4, sets_errno = None\<rparr>"
    by code_simp
  have 7: "strtoul ?env ''21\<newline>'' = \<lparr>result = 21, consumed = 2, sets_errno = None\<rparr>"
    by code_simp
  have 8: "m_method_stats fresh = Map.empty"
    by (simp add: fresh_def)
  from example_file_one_entry [OF 1 2 3 4 5 6 7 8]
  show ?thesis
    by (auto simp: fresh_def)
qed

text \<open>
  C9. A min_api_level cell that \<open>strtoul\<close> converts fully to an unsigned long above
  255 does not abort the ingestion: \<open>parse_byte\<close> returns the value cast to
  \<open>uint8_t\<close>, that is reduced modulo 256, and the cell stores it in the row's
  statistics; the stored level differs from the number in the file.
\<close>

theorem parse_byte_reduces_modulo_256:
  assumes "parses_fully (strtoul env tok) tok"
    and "255 < unat (result (strtoul env tok))"
  shows "\<exists>st'. parse_byte env tok st = (Returned (ucast (result (strtoul env tok))), st')
     \<and> parse_cell env tok MIN_API_LEVEL (st, ref, stats) =
         (Returned True, st', ref, stats\<lparr>min_api_level := ucast (result (strtoul env tok))\<rparr>)
     \<and> m_method_stats st' = m_method_stats st \<and> cerr st' = cerr st
     \<and> unat (ucast (result (strtoul env tok)) :: 8 word) = unat (result (strtoul env tok)) mod 256
     \<and> unat (ucast (result (strtoul env tok)) :: 8 word) \<noteq> unat (result (strtoul env tok))"
proof -
  have reduce: "unat (ucast (result (strtoul env tok)) :: 8 word) = unat (result (strtoul env tok)) mod 256"
    by (simp add: unsigned_ucast_eq take_bit_eq_mod)
  have "unat (result (strtoul env tok)) mod 256 < 256"
    by simp
  with assms(2) have differs:
    "unat (ucast (result (strtoul env tok)) :: 8 word) \<noteq> unat (result (strtoul env tok))"
    unfolding reduce by linarith
  show ?thesis
    using assms(1) reduce differs
    by (simp add: parse_byte_eq parse_cell_def column_defs)
qed

theorem parse_byte_reduces_modulo_256_witness:
  "fst (parse_byte (example_env []) ''300\<newline>'' fresh) = Returned 44
   \<and> unat (44 :: 8 word) = 300 mod 256
   \<and> fst (parse_stats_file (example_env csv_with_level_300) ''stats.csv'' fresh) = Returned True
   \<and> m_method_stats
        (snd (parse_stats_file (example_env csv_with_level_300) ''stats.csv'' fresh)) 1
     = Some \<lparr>appear_percent = 12.5, call_count = 3.2, order_percent = 50.0, min_api_level = 44\<rparr>"
proof -
  have full: "parses_fully (strtoul (example_env []) ''300\<newline>'') ''300\<newline>''"
    by code_simp
  have v: "result (strtoul (example_env []) ''300\<newline>'') = 300"
    by code_simp
  have big: "255 < unat (result (strtoul (example_env []) ''300\<newline>''))"
    unfolding v by simp
  have c: "(ucast (300 :: 64 word) :: 8 word) = 44"
    by simp
  from parse_byte_reduces_modulo_256
         [OF full big, where st = fresh and ref = None and stats = "initial_stats (example_env [])"]
  obtain st' where "parse_byte (example_env []) ''300\<newline>'' fresh = (Returned 44, st')"
    unfolding v c by blast
  moreover have "fst (parse_stats_file (example_env csv_with_level_300) ''stats.csv'' fresh)
      = Returned True
   \<and> m_method_stats
        (snd (parse_stats_file (example_env csv_with_level_300) ''stats.csv'' fresh)) 1
     = Some \<lparr>appear_percent = 12.5, call_count = 3.2, order_percent = 50.0, min_api_level = 44\<rparr>"
    by code_simp
  ultimately show ?thesis
    by simp
qed

end
